theory Spec2Isabelle
  imports Main "HOL-Library.Multiset"
begin

section \<open>Data model\<close>

text \<open>
  The planner (\<^verbatim>\<open>src/optimizer/planner.cpp\<close>) and the query runner
  (\<^verbatim>\<open>src/execution/execution_manager.cpp\<close>) of RMDB.  The headers that declare the
  data types are not among the sources; the types below carry the fields the two source
  files read and write, under the names the code uses.  C++ strings are \<^typ>\<open>string\<close>,
  vectors are lists.
\<close>

datatype CompOp = OP_EQ | OP_NE | OP_LT | OP_GT | OP_LE | OP_GE

datatype ColType = TYPE_INT | TYPE_FLOAT | TYPE_STRING

record TabCol =
  tab_name :: string
  col_name :: string

text \<open>A literal of a condition.  The planner never looks inside one; a float literal is kept
  as its four bytes.\<close>

datatype Value = IntValue int | FloatValue string | StringValue string

record Condition =
  lhs_col :: TabCol
  op :: CompOp
  is_rhs_val :: bool
  rhs_col :: TabCol
  rhs_val :: Value

record ColMeta =
  name :: string
  type :: ColType
  len :: int
  offset :: int

record IndexMeta =
  idx_tab_name :: string
  cols :: "ColMeta list"

record TabMeta =
  indexes :: "IndexMeta list"

text \<open>The catalog: \<^verbatim>\<open>sm_manager_->db_.get_table(name)\<close>, taken as a parameter.\<close>

type_synonym DbMeta = "string \<Rightarrow> TabMeta"

section \<open>\<^verbatim>\<open>Planner::pop_conds\<close>\<close>

text \<open>The test of the \<^verbatim>\<open>while\<close> loop of \<^verbatim>\<open>pop_conds\<close> (planner.cpp, line 96).\<close>

definition pop_test :: "string \<Rightarrow> Condition \<Rightarrow> bool" where
  "pop_test tab_names c \<longleftrightarrow>
     (tab_names = tab_name (lhs_col c) \<and> is_rhs_val c)
     \<or> tab_name (lhs_col c) = tab_name (rhs_col c)"

text \<open>
  The loop walks \<^verbatim>\<open>conds\<close> with an iterator; a condition that passes the test is appended to
  \<^verbatim>\<open>solved_conds\<close> and erased, the others are stepped over.  The first argument is the part of
  \<^verbatim>\<open>conds\<close> before the iterator (already kept), the second the part from the iterator on.
  The result is \<^verbatim>\<open>(solved_conds, conds)\<close>: the returned vector and the vector left behind.
\<close>

fun pop_conds_loop ::
  "string \<Rightarrow> Condition list \<Rightarrow> Condition list \<Rightarrow> Condition list
    \<Rightarrow> Condition list \<times> Condition list" where
  "pop_conds_loop tab_names kept [] solved_conds = (solved_conds, kept)"
| "pop_conds_loop tab_names kept (c # rest) solved_conds =
     (if pop_test tab_names c
      then pop_conds_loop tab_names kept rest (solved_conds @ [c])
      else pop_conds_loop tab_names (kept @ [c]) rest solved_conds)"

definition pop_conds :: "Condition list \<Rightarrow> string \<Rightarrow> Condition list \<times> Condition list" where
  "pop_conds conds tab_names = pop_conds_loop tab_names [] conds []"

section \<open>\<^verbatim>\<open>Planner::get_index_cols\<close>\<close>

text \<open>The hash map \<^verbatim>\<open>col_to_cond_map\<close>, filled by the first loop (lines 35--40).\<close>

fun col_to_cond_map_fill ::
  "string \<Rightarrow> Condition list \<Rightarrow> (string \<rightharpoonup> Condition) \<Rightarrow> (string \<rightharpoonup> Condition)" where
  "col_to_cond_map_fill tab [] m = m"
| "col_to_cond_map_fill tab (cond # conds) m =
     col_to_cond_map_fill tab conds
       (if is_rhs_val cond \<and> tab_name (lhs_col cond) = tab
        then m(col_name (lhs_col cond) \<mapsto> cond) else m)"

text \<open>
  The inner loop over the columns of one index (lines 50--57, and again lines 181--188 of
  \<^verbatim>\<open>pop_scan\<close> with another test): it counts the leading columns that pass the test and stops
  at the first that does not.  The result is \<^verbatim>\<open>(match_count, full_match)\<close>.
\<close>

fun match_cols :: "(ColMeta \<Rightarrow> bool) \<Rightarrow> ColMeta list \<Rightarrow> nat \<Rightarrow> nat \<times> bool" where
  "match_cols hit [] match_count = (match_count, True)"
| "match_cols hit (idx_col # idx_cols) match_count =
     (if hit idx_col then match_cols hit idx_cols (match_count + 1)
      else (match_count, False))"

text \<open>
  The outer loop over the indexes of the table (lines 46--70 and 177--201), with the lines
  that follow it (71--76 and 203--208).  It carries \<^verbatim>\<open>max_match_count\<close> and \<^verbatim>\<open>best_idx\<close>; a new
  maximum that is a full match returns at once.  The result is \<^verbatim>\<open>None\<close> where the code finds
  \<^verbatim>\<open>max_match_count == 0\<close>, and otherwise the names of all the columns of \<^verbatim>\<open>best_idx\<close>, which
  is what the code pushes into \<^verbatim>\<open>index_col_names\<close>.
\<close>

fun best_index ::
  "(ColMeta \<Rightarrow> bool) \<Rightarrow> IndexMeta list \<Rightarrow> nat \<Rightarrow> IndexMeta \<Rightarrow> string list option" where
  "best_index hit [] max_match_count best_idx =
     (if max_match_count = 0 then None else Some (map name (cols best_idx)))"
| "best_index hit (index # tab_idxs) max_match_count best_idx =
     (case match_cols hit (cols index) 0 of
        (match_count, full_match) \<Rightarrow>
          if match_count > max_match_count
          then (if full_match then Some (map name (cols index))
                else best_index hit tab_idxs match_count index)
          else best_index hit tab_idxs max_match_count best_idx)"

text \<open>A default-constructed \<^verbatim>\<open>IndexMeta\<close>.\<close>

definition IndexMeta_default :: IndexMeta where
  "IndexMeta_default = \<lparr>idx_tab_name = [], cols = []\<rparr>"

text \<open>The function returns a flag and fills \<^verbatim>\<open>index_col_names\<close>, cleared on entry.\<close>

definition get_index_cols :: "DbMeta \<Rightarrow> string \<Rightarrow> Condition list \<Rightarrow> bool \<times> string list" where
  "get_index_cols db tab curr_conds =
     (let tab_idxs = indexes (db tab);
          col_to_cond_map = col_to_cond_map_fill tab curr_conds Map.empty
      in case best_index (\<lambda>idx_col. col_to_cond_map (name idx_col) \<noteq> None)
                tab_idxs 0 IndexMeta_default of
           None \<Rightarrow> (False, [])
         | Some index_col_names \<Rightarrow> (True, index_col_names))"

text \<open>
  The words of the specification about index matching: a column of an index is matched
  when some condition of the list has that column of the table on its left and a literal
  on its right; the matched prefix of an index is its longest leading run of matched
  columns.
\<close>

definition value_pred_on :: "string \<Rightarrow> Condition list \<Rightarrow> string \<Rightarrow> bool" where
  "value_pred_on T C cname \<longleftrightarrow>
     (\<exists>c\<in>set C. tab_name (lhs_col c) = T \<and> is_rhs_val c \<and> col_name (lhs_col c) = cname)"

definition matched_prefix :: "string \<Rightarrow> Condition list \<Rightarrow> IndexMeta \<Rightarrow> ColMeta list" where
  "matched_prefix T C I = takeWhile (\<lambda>col. value_pred_on T C (name col)) (cols I)"

text \<open>The length of the leading run of an index's columns that pass the test.\<close>

definition mlen :: "(ColMeta \<Rightarrow> bool) \<Rightarrow> IndexMeta \<Rightarrow> nat" where
  "mlen hit I = length (takeWhile hit (cols I))"

section \<open>Scenario data\<close>

definition int_col :: "string \<Rightarrow> int \<Rightarrow> ColMeta" where
  "int_col n off = \<lparr>name = n, type = TYPE_INT, len = 4, offset = off\<rparr>"

definition no_col :: TabCol where
  "no_col = \<lparr>tab_name = [], col_name = []\<rparr>"

text \<open>A condition \<^verbatim>\<open>t.c op v\<close> against a literal and a condition \<^verbatim>\<open>t.c op t'.c'\<close> between
  columns, as the analyser leaves them (the unused side default-constructed).\<close>

definition val_cond :: "string \<Rightarrow> string \<Rightarrow> CompOp \<Rightarrow> Value \<Rightarrow> Condition" where
  "val_cond t c o' v =
     \<lparr>lhs_col = \<lparr>tab_name = t, col_name = c\<rparr>, op = o', is_rhs_val = True,
      rhs_col = no_col, rhs_val = v\<rparr>"

definition col_cond :: "string \<Rightarrow> string \<Rightarrow> CompOp \<Rightarrow> string \<Rightarrow> string \<Rightarrow> Condition" where
  "col_cond t c o' t' c' =
     \<lparr>lhs_col = \<lparr>tab_name = t, col_name = c\<rparr>, op = o', is_rhs_val = False,
      rhs_col = \<lparr>tab_name = t', col_name = c'\<rparr>, rhs_val = IntValue 0\<rparr>"

text \<open>Table \<^verbatim>\<open>t(a INT, b INT, c INT)\<close> with one index, on \<^verbatim>\<open>(a, b)\<close>.\<close>

definition db_t_ab :: DbMeta where
  "db_t_ab = (\<lambda>_. \<lparr>indexes = [\<lparr>idx_tab_name = ''t'', cols = [int_col ''a'' 0, int_col ''b'' 4]\<rparr>]\<rparr>)"

text \<open>Table \<^verbatim>\<open>t\<close> with an index on \<^verbatim>\<open>(a)\<close> followed by an index on \<^verbatim>\<open>(a, b)\<close>.\<close>

definition db_t_a_ab :: DbMeta where
  "db_t_a_ab = (\<lambda>_. \<lparr>indexes = [\<lparr>idx_tab_name = ''t'', cols = [int_col ''a'' 0]\<rparr>,
        \<lparr>idx_tab_name = ''t'', cols = [int_col ''a'' 0, int_col ''b'' 4]\<rparr>]\<rparr>)"

section \<open>Plans\<close>

text \<open>
  The plan classes of \<^verbatim>\<open>plan.h\<close>, one constructor for each class the two source files build
  or inspect, with the arguments the source passes to the class's constructor, in their
  order (the catalog manager left out); \<^verbatim>\<open>nullptr\<close> is the empty \<^verbatim>\<open>std::shared_ptr<Plan>\<close>.  The planner only ever wraps the plans it has built, and a
  join node is reachable from the running tree alone, so a plan is its tree.
\<close>

datatype PlanTag =
    T_Invalid | T_Help | T_ShowTable | T_ShowIndex | T_DescTable
  | T_CreateTable | T_DropTable | T_CreateIndex | T_DropIndex
  | T_Insert | T_Update | T_Delete | T_select
  | T_Transaction_begin | T_Transaction_commit | T_Transaction_abort | T_Transaction_rollback
  | T_SeqScan | T_IndexScan | T_NestLoop | T_SortMerge | T_Sort | T_Projection
  | T_GroupBy | T_Aggregate

datatype SetKnobType = EnableNestLoop | EnableSortMerge

datatype Plan =
    nullptr
  | ScanPlan PlanTag string "Condition list" "string list"
  | JoinPlan PlanTag Plan Plan "Condition list"
  | SortPlan PlanTag Plan "TabCol list" bool
  | OtherPlan PlanTag string
  | SetKnobPlan SetKnobType bool

text \<open>
  What the code throws, and the behaviour C++ leaves undefined (a null pointer
  dereferenced, a read or write outside a buffer, an element of an empty vector).
\<close>

datatype error = InternalError string | RMDBError string | UndefinedBehaviour

section \<open>\<^verbatim>\<open>push_conds\<close>\<close>

text \<open>The map \<^verbatim>\<open>swap_op\<close> of lines 137--139 and 375--377; \<^verbatim>\<open>swap_op.at\<close> finds each of the six
  operators.\<close>

fun swap_op :: "CompOp \<Rightarrow> CompOp" where
  "swap_op OP_EQ = OP_EQ"
| "swap_op OP_NE = OP_NE"
| "swap_op OP_LT = OP_GT"
| "swap_op OP_GT = OP_LT"
| "swap_op OP_LE = OP_GE"
| "swap_op OP_GE = OP_LE"

text \<open>\<^verbatim>\<open>std::swap(cond->lhs_col, cond->rhs_col); cond->op = swap_op.at(cond->op);\<close>\<close>

definition swap_cond :: "Condition \<Rightarrow> Condition" where
  "swap_cond cond = cond\<lparr>lhs_col := rhs_col cond, rhs_col := lhs_col cond, op := swap_op (op cond)\<rparr>"

text \<open>
  \<^verbatim>\<open>push_conds\<close> (lines 106--147) appends to the \<^verbatim>\<open>conds_\<close> of a join node in place; the model
  returns the code with the plan as it is afterwards.  A plan that is neither a scan nor a
  join (a sort node, a null pointer) fails both casts and yields \<^verbatim>\<open>false\<close>, that is 0.
\<close>

fun push_conds :: "Condition \<Rightarrow> Plan \<Rightarrow> int \<times> Plan" where
  "push_conds cond (ScanPlan tag tab fed_conds index_col_names) =
     (if tab = tab_name (lhs_col cond) then 1
      else if tab = tab_name (rhs_col cond) then 2
      else 0,
      ScanPlan tag tab fed_conds index_col_names)"
| "push_conds cond (JoinPlan tag left right conds') =
     (case push_conds cond left of (left_res, left') \<Rightarrow>
        if left_res = 3 then (3, JoinPlan tag left' right conds')
        else (case push_conds cond right of (right_res, right') \<Rightarrow>
          if right_res = 3 then (3, JoinPlan tag left' right' conds')
          else if left_res = 0 \<or> right_res = 0
            then (left_res + right_res, JoinPlan tag left' right' conds')
          else (3, JoinPlan tag left' right'
                     (conds' @ [if left_res = 2 then swap_cond cond else cond]))))"
| "push_conds cond plan = (0, plan)"

section \<open>\<^verbatim>\<open>Planner::pop_scan\<close>\<close>

text \<open>
  The loop of \<^verbatim>\<open>pop_scan\<close> (lines 157--211) from index \<open>i\<close> on, over the plans from that index.
  It writes \<^verbatim>\<open>scantbl[i]\<close> and appends to \<^verbatim>\<open>joined_tables\<close>, both returned with the plan; the index
  search is the loop of \<^verbatim>\<open>get_index_cols\<close> with the test \<^verbatim>\<open>col.col_name == idx_col.name\<close>.  A plan
  that is no scan makes the cast null and \<^verbatim>\<open>x->tab_name_\<close> undefined.  No match returns the
  null pointer.
\<close>

fun pop_scan_from ::
  "DbMeta \<Rightarrow> TabCol \<Rightarrow> nat \<Rightarrow> Plan list \<Rightarrow> int list \<Rightarrow> string list
     \<Rightarrow> error + Plan \<times> int list \<times> string list" where
  "pop_scan_from db col i [] scantbl joined_tables = Inr (nullptr, scantbl, joined_tables)"
| "pop_scan_from db col i (ScanPlan tag tab fed_conds index_col_names # plans)
       scantbl joined_tables =
     (if tab = tab_name col
      then (let scantbl' = scantbl[i := 1];
                joined_tables' = joined_tables @ [tab]
            in if tag = T_IndexScan
               then Inr (ScanPlan tag tab fed_conds index_col_names, scantbl', joined_tables')
               else (case best_index (\<lambda>idx_col. col_name col = name idx_col)
                            (indexes (db tab)) 0 IndexMeta_default of
                       None \<Rightarrow>
                         Inr (ScanPlan tag tab fed_conds index_col_names, scantbl', joined_tables')
                     | Some index_col_names' \<Rightarrow>
                         Inr (ScanPlan T_IndexScan (tab_name col) fed_conds index_col_names',
                              scantbl', joined_tables')))
      else pop_scan_from db col (i + 1) plans scantbl joined_tables)"
| "pop_scan_from db col i (_ # plans) scantbl joined_tables = Inl UndefinedBehaviour"

definition pop_scan ::
  "DbMeta \<Rightarrow> int list \<Rightarrow> TabCol \<Rightarrow> string list \<Rightarrow> Plan list
     \<Rightarrow> error + Plan \<times> int list \<times> string list" where
  "pop_scan db scantbl col joined_tables plans = pop_scan_from db col 0 plans scantbl joined_tables"

section \<open>\<^verbatim>\<open>Planner::make_one_rel\<close>\<close>

text \<open>The two fields of the query that \<^verbatim>\<open>make_one_rel\<close> uses.\<close>

record Query =
  tables :: "string list"
  conds :: "Condition list"

text \<open>
  The first loop (lines 252--268): one scan for each table, from the conditions
  \<^verbatim>\<open>pop_conds\<close> takes out of \<^verbatim>\<open>query->conds\<close>.  The result is \<^verbatim>\<open>table_scan_executors\<close> with what is left
  of \<^verbatim>\<open>query->conds\<close>.
\<close>

fun table_scans :: "DbMeta \<Rightarrow> string list \<Rightarrow> Condition list \<Rightarrow> Plan list \<times> Condition list" where
  "table_scans db [] query_conds = ([], query_conds)"
| "table_scans db (t # ts) query_conds =
     (case pop_conds query_conds t of (curr_conds, query_conds') \<Rightarrow>
      (case get_index_cols db t curr_conds of (index_exist, index_col_names) \<Rightarrow>
       (case table_scans db ts query_conds' of (table_scan_executors, query_conds'') \<Rightarrow>
          ((if index_exist = False then ScanPlan T_SeqScan t curr_conds []
            else ScanPlan T_IndexScan t curr_conds index_col_names) # table_scan_executors,
           query_conds''))))"

text \<open>
  One input of a sort-merge join (lines 314--323 and 329--337): a sequential scan is put
  under a sort on the join column, an index scan is taken as it is, any other plan throws.
  \<^verbatim>\<open>left->tag\<close> of a null pointer is undefined.
\<close>

definition sorted_input :: "Plan \<Rightarrow> TabCol \<Rightarrow> error + Plan" where
  "sorted_input child col =
     (case child of
        nullptr \<Rightarrow> Inl UndefinedBehaviour
      | ScanPlan tag tab fed_conds index_col_names \<Rightarrow>
          if tag = T_SeqScan then Inr (SortPlan T_Sort child [col] False)
          else if tag = T_IndexScan then Inr child
          else Inl (InternalError ''bad plan while build sort merge join'')
      | _ \<Rightarrow> Inl (InternalError ''bad plan while build sort merge join''))"

text \<open>
  The join for the first join condition (lines 296--345).  The planner's two flags have
  just been set from the globals \<^verbatim>\<open>g_enable_nestloop\<close> and \<^verbatim>\<open>g_enable_sortmerge\<close> (lines 298--299),
  which are the parameters here.
\<close>

definition first_join :: "bool \<Rightarrow> bool \<Rightarrow> Plan \<Rightarrow> Plan \<Rightarrow> Condition \<Rightarrow> error + Plan" where
  "first_join enable_nestedloop_join enable_sortmerge_join left right cond =
     (if enable_nestedloop_join \<and> enable_sortmerge_join
        then Inr (JoinPlan T_NestLoop left right [cond])
      else if enable_nestedloop_join
        then Inr (JoinPlan T_NestLoop left right [cond])
      else if enable_sortmerge_join
        then (case sorted_input left (lhs_col cond) of
                Inl e \<Rightarrow> Inl e
              | Inr sorted_left \<Rightarrow>
                  (case sorted_input right (rhs_col cond) of
                     Inl e \<Rightarrow> Inl e
                   | Inr sorted_right \<Rightarrow>
                       Inr (JoinPlan T_SortMerge sorted_left sorted_right [cond])))
      else Inl (RMDBError ''No join executor selected!''))"

text \<open>
  The body of the second loop (lines 353--388) for one condition, on the running tree,
  \<^verbatim>\<open>scantbl\<close> and \<^verbatim>\<open>joined_tables\<close>.
\<close>

definition join_next ::
  "DbMeta \<Rightarrow> Plan list \<Rightarrow> Condition \<Rightarrow> Plan \<times> int list \<times> string list
     \<Rightarrow> error + Plan \<times> int list \<times> string list" where
  "join_next db table_scan_executors cond st =
     (case st of (table_join_executors, scantbl, joined_tables) \<Rightarrow>
      (case (if tab_name (lhs_col cond) \<notin> set joined_tables
             then pop_scan db scantbl (lhs_col cond) joined_tables table_scan_executors
             else Inr (nullptr, scantbl, joined_tables)) of
         Inl e \<Rightarrow> Inl e
       | Inr (left_need_to_join_executors, scantbl1, joined_tables1) \<Rightarrow>
      (case (if tab_name (rhs_col cond) \<notin> set joined_tables1
             then pop_scan db scantbl1 (rhs_col cond) joined_tables1 table_scan_executors
             else Inr (nullptr, scantbl1, joined_tables1)) of
         Inl e \<Rightarrow> Inl e
       | Inr (right_need_to_join_executors, scantbl2, joined_tables2) \<Rightarrow>
      (let isneedreverse = (tab_name (rhs_col cond) \<notin> set joined_tables1)
       in if left_need_to_join_executors \<noteq> nullptr \<and> right_need_to_join_executors \<noteq> nullptr
          then Inr (JoinPlan T_NestLoop
                      (JoinPlan T_NestLoop left_need_to_join_executors
                         right_need_to_join_executors [cond])
                      table_join_executors [],
                    scantbl2, joined_tables2)
          else if left_need_to_join_executors \<noteq> nullptr \<or> right_need_to_join_executors \<noteq> nullptr
          then Inr (JoinPlan T_NestLoop
                      (if isneedreverse then right_need_to_join_executors
                       else left_need_to_join_executors)
                      table_join_executors
                      [if isneedreverse then swap_cond cond else cond],
                    scantbl2, joined_tables2)
          else Inr (snd (push_conds cond table_join_executors), scantbl2, joined_tables2)))))"

text \<open>The second loop (lines 351--389).\<close>

fun join_conds ::
  "DbMeta \<Rightarrow> Plan list \<Rightarrow> Condition list \<Rightarrow> Plan \<times> int list \<times> string list
     \<Rightarrow> error + Plan \<times> int list \<times> string list" where
  "join_conds db table_scan_executors [] st = Inr st"
| "join_conds db table_scan_executors (cond # conds') st =
     (case join_next db table_scan_executors cond st of
        Inl e \<Rightarrow> Inl e
      | Inr st' \<Rightarrow> join_conds db table_scan_executors conds' st')"

text \<open>The last loop (lines 396--401): each table whose \<^verbatim>\<open>scantbl\<close> entry is still \<open>-1\<close>
  is joined on the right of the tree.\<close>

fun join_rest :: "int list \<Rightarrow> Plan list \<Rightarrow> Plan \<Rightarrow> Plan" where
  "join_rest (s # scantbl) (p # table_scan_executors) table_join_executors =
     join_rest scantbl table_scan_executors
       (if s = - 1 then JoinPlan T_NestLoop table_join_executors p []
        else table_join_executors)"
| "join_rest _ _ table_join_executors = table_join_executors"

text \<open>
  \<^verbatim>\<open>make_one_rel\<close> (lines 241--403).  The result comes with the query as the call leaves it:
  \<^verbatim>\<open>pop_conds\<close> has taken conditions out of \<^verbatim>\<open>query->conds\<close>, and with more than one table
  \<^verbatim>\<open>std::move\<close> has emptied it (line 276), also when an exception follows.  \<^verbatim>\<open>joined_tables\<close> starts
  as \<^verbatim>\<open>tables.size()\<close> empty strings (line 290).  \<^verbatim>\<open>table_scan_executors[0]\<close> of an empty vector
  is undefined.
\<close>

definition make_one_rel :: "DbMeta \<Rightarrow> bool \<Rightarrow> bool \<Rightarrow> Query \<Rightarrow> (error + Plan) \<times> Query" where
  "make_one_rel db g_enable_nestloop g_enable_sortmerge query =
     (case table_scans db (tables query) (conds query) of
        (table_scan_executors, query_conds) \<Rightarrow>
      if length (tables query) = 1
      then (case table_scan_executors of
              [] \<Rightarrow> (Inl UndefinedBehaviour, query\<lparr>conds := query_conds\<rparr>)
            | p # _ \<Rightarrow> (Inr p, query\<lparr>conds := query_conds\<rparr>))
      else
       (let scantbl = replicate (length (tables query)) (- 1)
        in case query_conds of
             [] \<Rightarrow>
               (case table_scan_executors of
                  [] \<Rightarrow> Inl UndefinedBehaviour
                | p # _ \<Rightarrow> Inr (join_rest (scantbl[0 := 1]) table_scan_executors p))
           | cond # conds' \<Rightarrow>
               (case pop_scan db scantbl (lhs_col cond)
                       (replicate (length (tables query)) []) table_scan_executors of
                  Inl e \<Rightarrow> Inl e
                | Inr (left, scantbl1, joined_tables1) \<Rightarrow>
               (case pop_scan db scantbl1 (rhs_col cond) joined_tables1 table_scan_executors of
                  Inl e \<Rightarrow> Inl e
                | Inr (right, scantbl2, joined_tables2) \<Rightarrow>
               (case first_join g_enable_nestloop g_enable_sortmerge left right cond of
                  Inl e \<Rightarrow> Inl e
                | Inr table_join_executors \<Rightarrow>
               (case join_conds db table_scan_executors conds'
                       (table_join_executors, scantbl2, joined_tables2) of
                  Inl e \<Rightarrow> Inl e
                | Inr (table_join_executors', scantbl', joined_tables') \<Rightarrow>
                    Inr (join_rest scantbl' table_scan_executors table_join_executors'))))),
        query\<lparr>conds := []\<rparr>))"

text \<open>A catalog without indexes.\<close>

definition db_none :: DbMeta where "db_none = (\<lambda>_. \<lparr>indexes = []\<rparr>)"

section \<open>Reading plans\<close>

text \<open>What the properties below say about plans: whether a plan is a scan, and the table
  and the fed conditions of a scan.\<close>

fun is_scan :: "Plan \<Rightarrow> bool" where
  "is_scan (ScanPlan tag tab fed_conds index_col_names) = True"
| "is_scan _ = False"

fun plan_tab :: "Plan \<Rightarrow> string" where
  "plan_tab (ScanPlan tag tab fed_conds index_col_names) = tab"
| "plan_tab _ = []"

fun plan_fed :: "Plan \<Rightarrow> Condition list" where
  "plan_fed (ScanPlan tag tab fed_conds index_col_names) = fed_conds"
| "plan_fed _ = []"

fun scan_tag_ok :: "Plan \<Rightarrow> bool" where
  "scan_tag_ok (ScanPlan tag tab fed_conds index_col_names) = (tag = T_SeqScan \<or> tag = T_IndexScan)"
| "scan_tag_ok _ = False"

text \<open>The query over \<^verbatim>\<open>r, s, u\<close> with the conditions \<^verbatim>\<open>r.x = s.x AND s.y = u.y\<close>.\<close>

definition q_rsu :: Query where
  "q_rsu = \<lparr>tables = [''r'', ''s'', ''u''],
            conds = [col_cond ''r'' ''x'' OP_EQ ''s'' ''x'', col_cond ''s'' ''y'' OP_EQ ''u'' ''y'']\<rparr>"

text \<open>The plan \<^verbatim>\<open>Join(u, Join(r, s, r.x = s.x), u.y = s.y)\<close> over sequential scans, and the left-deep
  plan \<^verbatim>\<open>Join(Join(r, s, r.x = s.x), u, s.y = u.y)\<close>.\<close>

definition plan_u_rs :: Plan where
  "plan_u_rs =
     JoinPlan T_NestLoop (ScanPlan T_SeqScan ''u'' [] [])
       (JoinPlan T_NestLoop (ScanPlan T_SeqScan ''r'' [] []) (ScanPlan T_SeqScan ''s'' [] [])
          [col_cond ''r'' ''x'' OP_EQ ''s'' ''x''])
       [col_cond ''u'' ''y'' OP_EQ ''s'' ''y'']"

definition plan_rs_u :: Plan where
  "plan_rs_u =
     JoinPlan T_NestLoop
       (JoinPlan T_NestLoop (ScanPlan T_SeqScan ''r'' [] []) (ScanPlan T_SeqScan ''s'' [] [])
          [col_cond ''r'' ''x'' OP_EQ ''s'' ''x''])
       (ScanPlan T_SeqScan ''u'' [] [])
       [col_cond ''s'' ''y'' OP_EQ ''u'' ''y'']"

text \<open>The tags of the join nodes of a plan, the root first.\<close>

fun join_tags :: "Plan \<Rightarrow> PlanTag list" where
  "join_tags (JoinPlan tag left right conds') = tag # join_tags left @ join_tags right"
| "join_tags (SortPlan tag child sort_cols is_desc) = join_tags child"
| "join_tags _ = []"

text \<open>
  The conjuncts that no table's \<^verbatim>\<open>pop_conds\<close> takes: those that are neither a comparison of a
  column of one of the tables with a literal nor a comparison within one table.  They are
  the join conditions the planner builds the join tree from.
\<close>

definition join_conditions :: "string list \<Rightarrow> Condition list \<Rightarrow> Condition list" where
  "join_conditions ts C =
     filter (\<lambda>c. \<not> (\<exists>t\<in>set ts. (tab_name (lhs_col c) = t \<and> is_rhs_val c)
                              \<or> tab_name (lhs_col c) = tab_name (rhs_col c))) C"

text \<open>The query over \<^verbatim>\<open>r, s\<close> without a condition.\<close>

definition q_rs_cross :: Query where
  "q_rs_cross = \<lparr>tables = [''r'', ''s''], conds = []\<rparr>"

text \<open>
  The shape of an input of a sort-merge join on the column \<open>col\<close> as lines 314--337 build it: a
  sort node, ascending and on that column alone, over a sequential scan of the column's
  table, or an index scan of the column's table.  The columns of the index are not looked
  at: the shape says nothing about the order in which an index scan delivers its tuples.
\<close>

fun sort_merge_child_shape :: "Plan \<Rightarrow> TabCol \<Rightarrow> bool" where
  "sort_merge_child_shape (SortPlan tag (ScanPlan child_tag tab fed ic) sort_cols is_desc) col =
     (tag = T_Sort \<and> sort_cols = [col] \<and> \<not> is_desc
      \<and> child_tag = T_SeqScan \<and> tab = tab_name col)"
| "sort_merge_child_shape (ScanPlan tag tab fed ic) col = (tag = T_IndexScan \<and> tab = tab_name col)"
| "sort_merge_child_shape _ col = False"

text \<open>
  Every sort-merge join node of the plan carries a condition, and its left and right
  children have that shape for the left and right column of its first condition, the one
  the join was built for.
\<close>

fun sort_merge_shape :: "Plan \<Rightarrow> bool" where
  "sort_merge_shape (JoinPlan tag left right conds') =
     ((tag = T_SortMerge \<longrightarrow>
         (case conds' of
            [] \<Rightarrow> False
          | cond # _ \<Rightarrow> sort_merge_child_shape left (lhs_col cond)
                        \<and> sort_merge_child_shape right (rhs_col cond)))
      \<and> sort_merge_shape left \<and> sort_merge_shape right)"
| "sort_merge_shape (SortPlan tag child sort_cols is_desc) = sort_merge_shape child"
| "sort_merge_shape _ = True"

text \<open>The two-table equi-join \<^verbatim>\<open>r.x = s.x\<close>, and the same with the filter \<^verbatim>\<open>r.a = 1\<close> over a catalog
  whose only index is on \<^verbatim>\<open>(a)\<close>.\<close>

definition q_rs :: Query where
  "q_rs = \<lparr>tables = [''r'', ''s''], conds = [col_cond ''r'' ''x'' OP_EQ ''s'' ''x'']\<rparr>"

definition q_rs_filter :: Query where
  "q_rs_filter = \<lparr>tables = [''r'', ''s''],
     conds = [val_cond ''r'' ''a'' OP_EQ (IntValue 1), col_cond ''r'' ''x'' OP_EQ ''s'' ''x'']\<rparr>"

definition db_r_a :: DbMeta where
  "db_r_a = (\<lambda>t. if t = ''r'' then \<lparr>indexes = [\<lparr>idx_tab_name = ''r'', cols = [int_col ''a'' 0]\<rparr>]\<rparr>
                 else \<lparr>indexes = []\<rparr>)"

text \<open>
  The conditions attached to a plan: the scan leaves with their tables and fed conditions,
  from left to right, and the conditions of the join nodes, the root first.
\<close>

fun leaf_scans :: "Plan \<Rightarrow> (string \<times> Condition list) list" where
  "leaf_scans (ScanPlan tag tab fed_conds index_col_names) = [(tab, fed_conds)]"
| "leaf_scans (JoinPlan tag left right conds') = leaf_scans left @ leaf_scans right"
| "leaf_scans (SortPlan tag child sort_cols is_desc) = leaf_scans child"
| "leaf_scans _ = []"

fun join_node_conds :: "Plan \<Rightarrow> Condition list" where
  "join_node_conds (JoinPlan tag left right conds') =
     conds' @ join_node_conds left @ join_node_conds right"
| "join_node_conds (SortPlan tag child sort_cols is_desc) = join_node_conds child"
| "join_node_conds _ = []"

definition scan_conds :: "Plan \<Rightarrow> Condition list" where
  "scan_conds p = concat (map snd (leaf_scans p))"

text \<open>A plan made of join nodes over scans only.\<close>

fun join_tree :: "Plan \<Rightarrow> bool" where
  "join_tree (ScanPlan tag tab fed_conds index_col_names) = True"
| "join_tree (JoinPlan tag left right conds') = (join_tree left \<and> join_tree right)"
| "join_tree _ = False"

text \<open>A condition together with its mirror image, the condition with its sides swapped and
  its operator inverted: the two say the same.\<close>

definition mirror :: "Condition \<Rightarrow> Condition set" where
  "mirror c = {c, swap_cond c}"

text \<open>The code \<^verbatim>\<open>push_conds\<close> returns for a condition over a tree whose leaves scan the tables
  \<open>T\<close>.\<close>

definition push_code :: "Condition \<Rightarrow> string set \<Rightarrow> int" where
  "push_code c T =
     (if tab_name (lhs_col c) \<in> T \<and> tab_name (rhs_col c) \<in> T then 3
      else if tab_name (lhs_col c) \<in> T then 1
      else if tab_name (rhs_col c) \<in> T then 2
      else 0)"

text \<open>A scan as the pair of its table and its fed conditions.\<close>

definition scan_pair :: "Plan \<Rightarrow> string \<times> Condition list" where
  "scan_pair p = (plan_tab p, plan_fed p)"

text \<open>
  The bookkeeping of \<^verbatim>\<open>make_one_rel\<close> over the tables \<open>ts\<close> and their scans, for a tree with
  the scan leaves \<open>L\<close>: no table is scanned twice, each leaf is the scan of a table with the
  conditions fed to it, and \<^verbatim>\<open>scantbl\<close> marks with 1 exactly the tables of the leaves.
\<close>

definition covered :: "string list \<Rightarrow> Plan list \<Rightarrow> (string \<times> Condition list) list \<Rightarrow> int list \<Rightarrow> bool" where
  "covered ts scans L scantbl \<longleftrightarrow>
     distinct (map fst L) \<and> set L \<subseteq> scan_pair ` set scans
     \<and> scantbl = map (\<lambda>t. if t \<in> fst ` set L then 1 else - 1) ts"

text \<open>The two-table query with two join conditions, \<^verbatim>\<open>r.x = s.x AND r.z = s.z\<close>.\<close>

definition q_rs_two :: Query where
  "q_rs_two = \<lparr>tables = [''r'', ''s''],
     conds = [col_cond ''r'' ''x'' OP_EQ ''s'' ''x'', col_cond ''r'' ''z'' OP_EQ ''s'' ''z'']\<rparr>"

text \<open>
  What \<^verbatim>\<open>pop_scan\<close> returns for the scan it matches (lines 160--209): the scan itself when it is
  an index scan already or when no index of the table is led by the column's name, and
  otherwise a new index scan of the column's table over the columns of the chosen index, with
  the \<^verbatim>\<open>fed_conds_\<close> of the matched scan.
\<close>

definition popped_scan :: "DbMeta \<Rightarrow> TabCol \<Rightarrow> Plan \<Rightarrow> Plan" where
  "popped_scan db col p =
     (case p of
        ScanPlan tag tab fed_conds index_col_names \<Rightarrow>
          if tag = T_IndexScan then p
          else (case best_index (\<lambda>idx_col. col_name col = name idx_col)
                       (indexes (db tab)) 0 IndexMeta_default of
                  None \<Rightarrow> p
                | Some index_col_names' \<Rightarrow>
                    ScanPlan T_IndexScan (tab_name col) fed_conds index_col_names')
      | _ \<Rightarrow> p)"

text \<open>
  A catalog whose only index is on \<^verbatim>\<open>c(k)\<close>; the scans of \<^verbatim>\<open>a\<close>, \<^verbatim>\<open>b\<close>, \<^verbatim>\<open>c\<close> where the scan of \<^verbatim>\<open>c\<close>
  carries the filter \<^verbatim>\<open>c.v = 1\<close>; and the tree that joins \<^verbatim>\<open>a\<close> and \<^verbatim>\<open>b\<close> on \<^verbatim>\<open>a.k = b.k\<close>.
\<close>

definition db_c_k :: DbMeta where
  "db_c_k = (\<lambda>t. if t = ''c'' then \<lparr>indexes = [\<lparr>idx_tab_name = ''c'', cols = [int_col ''k'' 0]\<rparr>]\<rparr>
                 else \<lparr>indexes = []\<rparr>)"

definition scans_abc :: "Plan list" where
  "scans_abc = [ScanPlan T_SeqScan ''a'' [] [], ScanPlan T_SeqScan ''b'' [] [],
                ScanPlan T_SeqScan ''c'' [val_cond ''c'' ''v'' OP_EQ (IntValue 1)] []]"

definition tree_ab :: Plan where
  "tree_ab = JoinPlan T_NestLoop (ScanPlan T_SeqScan ''a'' [] []) (ScanPlan T_SeqScan ''b'' [] [])
               [col_cond ''a'' ''k'' OP_EQ ''b'' ''k'']"

section \<open>\<^verbatim>\<open>QlManager::run_cmd_utility\<close>\<close>

text \<open>
  The catalog manager, the transaction manager, the transaction and the planner's setters
  are not among the sources.  A call of one of them is recorded, in order, in \<^verbatim>\<open>calls\<close>; each
  is taken to return normally.  A transaction is named by where the pointer came from:
  \<^verbatim>\<open>context->txn_\<close> as it was on entry, or the result of \<^verbatim>\<open>get_transaction(id)\<close>.
\<close>

datatype txn_ref = ContextTxn | TxnById nat

datatype call =
    sm_show_tables
  | sm_show_indexs string
  | sm_desc_table string
  | txn_set_txn_mode txn_ref bool
  | txn_mgr_get_transaction nat
  | txn_mgr_commit txn_ref
  | txn_mgr_abort txn_ref
  | planner_set_enable_nestedloop_join bool
  | planner_set_enable_sortmerge_join bool
  | rec_printer_print_separator
  | rec_printer_print_record "string list"
  | print_record_count nat

record Context =
  ctx_data_send :: string
  ctx_offset :: nat
  ctx_txn :: txn_ref
  calls :: "call list"

definition help_info :: string where
  "help_info =
    ''Supported SQL syntax:\<newline>'' @
    ''  command ;\<newline>'' @
    ''command:\<newline>'' @
    ''  CREATE TABLE table_name (column_name type [, column_name type ...])\<newline>'' @
    ''  DROP TABLE table_name\<newline>'' @
    ''  CREATE INDEX table_name (column_name)\<newline>'' @
    ''  DROP INDEX table_name (column_name)\<newline>'' @
    ''  INSERT INTO table_name VALUES (value [, value ...])\<newline>'' @
    ''  DELETE FROM table_name [WHERE where_clause]\<newline>'' @
    ''  UPDATE table_name SET column_name = value [, column_name = value ...] [WHERE where_clause]\<newline>'' @
    ''  SELECT selector FROM table_name [WHERE where_clause]\<newline>'' @
    ''type:\<newline>'' @
    ''  {INT | FLOAT | CHAR(n)}\<newline>'' @
    ''where_clause:\<newline>'' @
    ''  condition [AND condition ...]\<newline>'' @
    ''condition:\<newline>'' @
    ''  column op {column | value}\<newline>'' @
    ''column:\<newline>'' @
    ''  [table_name.]column_name\<newline>'' @
    ''op:\<newline>'' @
    ''  {= | <> | < | > | <= | >=}\<newline>'' @
    ''selector:\<newline>'' @
    ''  {* | column [, column ...]}\<newline>''"

text \<open>A statement acts on the context, or fails.\<close>

type_synonym stmt = "Context \<Rightarrow> error + Context"

definition invoke :: "call \<Rightarrow> stmt" where
  "invoke c ctx = Inr (ctx\<lparr>calls := calls ctx @ [c]\<rparr>)"

definition seq :: "stmt \<Rightarrow> stmt \<Rightarrow> stmt" where
  "seq f g ctx = (case f ctx of Inl e \<Rightarrow> Inl e | Inr ctx' \<Rightarrow> g ctx')"

text \<open>\<^verbatim>\<open>memcpy(context->data_send_ + *(context->offset_), src, strlen(src))\<close>: the send buffer
  has a fixed length, and a copy that does not fit is undefined.\<close>

definition memcpy_send :: "string \<Rightarrow> stmt" where
  "memcpy_send src ctx =
     (if ctx_offset ctx + length src \<le> length (ctx_data_send ctx)
      then Inr (ctx\<lparr>ctx_data_send := take (ctx_offset ctx) (ctx_data_send ctx) @ src
                       @ drop (ctx_offset ctx + length src) (ctx_data_send ctx)\<rparr>)
      else Inl UndefinedBehaviour)"

text \<open>
  A \<^verbatim>\<open>switch\<close> is the list of its \<^verbatim>\<open>case\<close> blocks in source order, each with its label, its body
  and whether the body ends in \<^verbatim>\<open>break\<close>, and its \<^verbatim>\<open>default\<close> block, which stands last.  Control
  enters at the first block whose label is the tag and runs on through the following
  blocks until a \<^verbatim>\<open>break\<close>.
\<close>

fun run_cases :: "(PlanTag \<times> stmt \<times> bool) list \<Rightarrow> stmt \<Rightarrow> stmt" where
  "run_cases [] dflt ctx = dflt ctx"
| "run_cases ((label, body, has_break) # rest) dflt ctx =
     (case body ctx of
        Inl e \<Rightarrow> Inl e
      | Inr ctx' \<Rightarrow> if has_break then Inr ctx' else run_cases rest dflt ctx')"

fun switch :: "PlanTag \<Rightarrow> (PlanTag \<times> stmt \<times> bool) list \<Rightarrow> stmt \<Rightarrow> stmt" where
  "switch tag [] dflt ctx = dflt ctx"
| "switch tag ((label, body, has_break) # rest) dflt ctx =
     (if tag = label then run_cases ((label, body, has_break) # rest) dflt ctx
      else switch tag rest dflt ctx)"

text \<open>The \<^verbatim>\<open>switch\<close> on \<^verbatim>\<open>x->tag\<close> of an \<^verbatim>\<open>OtherPlan\<close> (lines 80--128).\<close>

definition other_plan_cases :: "string \<Rightarrow> nat \<Rightarrow> (PlanTag \<times> stmt \<times> bool) list" where
  "other_plan_cases tab txn_id =
    [(T_Help,
        seq (memcpy_send help_info) (\<lambda>ctx. Inr (ctx\<lparr>ctx_offset := length help_info\<rparr>)),
        True),
     (T_ShowTable, invoke sm_show_tables, True),
     (T_ShowIndex, invoke (sm_show_indexs tab), False),
     (T_DescTable, invoke (sm_desc_table tab), True),
     (T_Transaction_begin, (\<lambda>ctx. invoke (txn_set_txn_mode (ctx_txn ctx) True) ctx), True),
     (T_Transaction_commit,
        seq (invoke (txn_mgr_get_transaction txn_id))
          (seq (\<lambda>ctx. Inr (ctx\<lparr>ctx_txn := TxnById txn_id\<rparr>))
               (\<lambda>ctx. invoke (txn_mgr_commit (ctx_txn ctx)) ctx)),
        True),
     (T_Transaction_rollback,
        seq (invoke (txn_mgr_get_transaction txn_id))
          (seq (\<lambda>ctx. Inr (ctx\<lparr>ctx_txn := TxnById txn_id\<rparr>))
               (\<lambda>ctx. invoke (txn_mgr_abort (ctx_txn ctx)) ctx)),
        True),
     (T_Transaction_abort,
        seq (invoke (txn_mgr_get_transaction txn_id))
          (seq (\<lambda>ctx. Inr (ctx\<lparr>ctx_txn := TxnById txn_id\<rparr>))
               (\<lambda>ctx. invoke (txn_mgr_abort (ctx_txn ctx)) ctx)),
        True)]"

definition run_cmd_utility :: "Plan \<Rightarrow> nat \<Rightarrow> stmt" where
  "run_cmd_utility plan txn_id ctx =
     (case plan of
        OtherPlan tag tab \<Rightarrow>
          switch tag (other_plan_cases tab txn_id)
            (\<lambda>_. Inl (InternalError ''Unexpected field type'')) ctx
      | SetKnobPlan set_knob_type bool_value \<Rightarrow>
          (case set_knob_type of
             EnableNestLoop \<Rightarrow> invoke (planner_set_enable_nestedloop_join bool_value) ctx
           | EnableSortMerge \<Rightarrow> invoke (planner_set_enable_sortmerge_join bool_value) ctx)
      | _ \<Rightarrow> Inr ctx)"

section \<open>\<^verbatim>\<open>QlManager::select_from\<close>\<close>

record AggregateExpr =
  func_name :: string
  agg_cols :: "TabCol list"
  asia :: string

text \<open>The record a tuple pointer points to: its bytes.\<close>

record RmRecord =
  data :: string

text \<open>
  The executor tree is not among the sources.  It enters \<^verbatim>\<open>select_from\<close> through its output
  schema \<^verbatim>\<open>cols()\<close> and the records that the iteration \<^verbatim>\<open>beginTuple\<close>, \<^verbatim>\<open>is_end\<close>, \<^verbatim>\<open>nextTuple\<close>,
  \<^verbatim>\<open>Next\<close> yields, in order.
\<close>

record AbstractExecutor =
  exec_cols :: "ColMeta list"
  tuples :: "RmRecord list"

text \<open>
  Reading \<open>n\<close> bytes at \<^verbatim>\<open>Tuple->data + off\<close>.  A read that leaves the record's buffer is
  undefined in C++.
\<close>

definition read_bytes :: "string \<Rightarrow> int \<Rightarrow> int \<Rightarrow> error + string" where
  "read_bytes buf off n =
     (if 0 \<le> off \<and> 0 \<le> n \<and> nat off + nat n \<le> length buf
      then Inr (take (nat n) (drop (nat off) buf))
      else Inl UndefinedBehaviour)"

text \<open>
  \<^verbatim>\<open>*(int *)rec_buf\<close>: four bytes as a 32-bit two's complement integer, least significant
  byte first (the byte order of the machines RMDB is built for).
\<close>

definition int_of_bytes :: "string \<Rightarrow> int" where
  "int_of_bytes bs =
     (let u = foldr (\<lambda>c acc. of_char c + 256 * acc) bs 0
      in if u < 2 ^ 31 then u else u - 2 ^ 32)"

text \<open>\<^verbatim>\<open>std::to_string(int)\<close>: the decimal digits, after a minus sign for a negative number.\<close>

function nat_digits :: "nat \<Rightarrow> string" where
  "nat_digits n =
     (if n < 10 then [''0123456789'' ! n]
      else nat_digits (n div 10) @ [''0123456789'' ! (n mod 10)])"
  by pat_completeness auto
termination
  by (relation "measure id") auto

definition to_string :: "int \<Rightarrow> string" where
  "to_string i = (if i < 0 then CHR ''-'' # nat_digits (nat (- i)) else nat_digits (nat i))"


text \<open>
  The body of the two column loops (lines 199--208 and 215--224): the text of one column
  read at \<^verbatim>\<open>rec_buf\<close>.  \<^verbatim>\<open>std::to_string(float)\<close> is a parameter, from the four bytes of the float
  to its text.  A string column is its first \<^verbatim>\<open>len\<close> bytes cut at the first NUL.
\<close>

definition col_str :: "(string \<Rightarrow> string) \<Rightarrow> string \<Rightarrow> int \<Rightarrow> ColMeta \<Rightarrow> error + string" where
  "col_str float_to_string tuple_data rec_buf col =
     (case type col of
        TYPE_INT \<Rightarrow>
          (case read_bytes tuple_data rec_buf 4 of
             Inl e \<Rightarrow> Inl e | Inr bs \<Rightarrow> Inr (to_string (int_of_bytes bs)))
      | TYPE_FLOAT \<Rightarrow>
          (case read_bytes tuple_data rec_buf 4 of
             Inl e \<Rightarrow> Inl e | Inr bs \<Rightarrow> Inr (float_to_string bs))
      | TYPE_STRING \<Rightarrow>
          (case read_bytes tuple_data rec_buf (len col) of
             Inl e \<Rightarrow> Inl e | Inr bs \<Rightarrow> Inr (takeWhile (\<lambda>c. c \<noteq> CHR 0x00) bs)))"

text \<open>
  The column loop of the branch without aggregates (lines 197--211).  The accumulator
  \<^verbatim>\<open>cols_offset\<close> is carried and advanced as in the code; the read is at \<^verbatim>\<open>col.offset\<close>.
\<close>

fun no_agg_columns ::
  "(string \<Rightarrow> string) \<Rightarrow> string \<Rightarrow> ColMeta list \<Rightarrow> int \<Rightarrow> string list \<Rightarrow> error + string list" where
  "no_agg_columns fl tuple_data [] cols_offset columns = Inr columns"
| "no_agg_columns fl tuple_data (col # rest) cols_offset columns =
     (case col_str fl tuple_data (offset col) col of
        Inl e \<Rightarrow> Inl e
      | Inr col_str' \<Rightarrow>
          no_agg_columns fl tuple_data rest (cols_offset + offset col) (columns @ [col_str']))"

text \<open>
  The column loop of the branch with aggregates (lines 213--227): the read is at
  \<^verbatim>\<open>cols_offset\<close>, which advances by \<^verbatim>\<open>col.len\<close>.  The final \<^verbatim>\<open>cols_offset\<close> is returned with the
  columns.
\<close>

fun agg_columns ::
  "(string \<Rightarrow> string) \<Rightarrow> string \<Rightarrow> ColMeta list \<Rightarrow> int \<Rightarrow> string list
     \<Rightarrow> error + (string list \<times> int)" where
  "agg_columns fl tuple_data [] cols_offset columns = Inr (columns, cols_offset)"
| "agg_columns fl tuple_data (col # rest) cols_offset columns =
     (case col_str fl tuple_data cols_offset col of
        Inl e \<Rightarrow> Inl e
      | Inr col_str' \<Rightarrow>
          agg_columns fl tuple_data rest (cols_offset + len col) (columns @ [col_str']))"

text \<open>The loop over the aggregates (lines 228--239), four bytes each.\<close>

fun agg_values ::
  "(string \<Rightarrow> string) \<Rightarrow> string \<Rightarrow> AggregateExpr list \<Rightarrow> int \<Rightarrow> string list
     \<Rightarrow> error + string list" where
  "agg_values fl tuple_data [] temp_offset columns = Inr columns"
| "agg_values fl tuple_data (agg # rest) temp_offset columns =
     (case read_bytes tuple_data temp_offset 4 of
        Inl e \<Rightarrow> Inl e
      | Inr bs \<Rightarrow>
          agg_values fl tuple_data rest (temp_offset + 4)
            (columns @ [if func_name agg = ''COUNT'' then to_string (int_of_bytes bs) else fl bs]))"

text \<open>The cells of one tuple (lines 194--240).\<close>

definition tuple_columns ::
  "(string \<Rightarrow> string) \<Rightarrow> ColMeta list \<Rightarrow> AggregateExpr list \<Rightarrow> RmRecord \<Rightarrow> error + string list" where
  "tuple_columns fl cols' sel_aggs Tuple =
     (if sel_aggs = [] then no_agg_columns fl (data Tuple) cols' 0 []
      else (case agg_columns fl (data Tuple) cols' 0 [] of
              Inl e \<Rightarrow> Inl e
            | Inr (columns, cols_offset) \<Rightarrow> agg_values fl (data Tuple) sel_aggs cols_offset columns))"

text \<open>
  The lines written to \<^verbatim>\<open>output.txt\<close> (lines 183--187 and 244--248).  The file is its content;
  the stream, opened for appending, is taken to open.
\<close>

fun write_cells :: "string list \<Rightarrow> string \<Rightarrow> string" where
  "write_cells [] outfile = outfile"
| "write_cells (c # cs) outfile = write_cells cs (outfile @ '' '' @ c @ '' |'')"

definition write_row :: "string list \<Rightarrow> string \<Rightarrow> string" where
  "write_row cells outfile = write_cells cells (outfile @ ''|'') @ ''\<newline>''"

text \<open>
  The captions (lines 153--171).  \<^verbatim>\<open>sel_agg.cols[0]\<close> of an empty vector is undefined.
\<close>

definition agg_caption :: "AggregateExpr \<Rightarrow> error + string" where
  "agg_caption sel_agg =
     (if asia sel_agg \<noteq> [] then Inr (asia sel_agg)
      else if func_name sel_agg = ''COUNT'' \<and> length (agg_cols sel_agg) > 1
        then Inr (func_name sel_agg @ ''('' @ ''*)'')
      else (case agg_cols sel_agg of
              [] \<Rightarrow> Inl UndefinedBehaviour
            | c # _ \<Rightarrow> Inr (func_name sel_agg @ ''('' @ col_name c @ '')'')))"

fun agg_captions :: "AggregateExpr list \<Rightarrow> string list \<Rightarrow> error + string list" where
  "agg_captions [] captions = Inr captions"
| "agg_captions (sel_agg # rest) captions =
     (case agg_caption sel_agg of
        Inl e \<Rightarrow> Inl e
      | Inr s \<Rightarrow> agg_captions rest (captions @ [s]))"

definition make_captions :: "TabCol list \<Rightarrow> AggregateExpr list \<Rightarrow> error + string list" where
  "make_captions sel_cols sel_aggs = agg_captions sel_aggs (map col_name sel_cols)"

text \<open>
  The loop over the tuples (lines 192--250).  \<^verbatim>\<open>RecordPrinter\<close> is not among the sources; its
  calls, which write to the client buffer of the context, are recorded in \<^verbatim>\<open>calls\<close>.
\<close>

fun print_records ::
  "(string \<Rightarrow> string) \<Rightarrow> ColMeta list \<Rightarrow> AggregateExpr list \<Rightarrow> RmRecord list
     \<Rightarrow> Context \<times> string \<times> nat \<Rightarrow> error + Context \<times> string \<times> nat" where
  "print_records fl cols' sel_aggs [] st = Inr st"
| "print_records fl cols' sel_aggs (Tuple # rest) (context, outfile, num_rec) =
     (case tuple_columns fl cols' sel_aggs Tuple of
        Inl e \<Rightarrow> Inl e
      | Inr columns \<Rightarrow>
          print_records fl cols' sel_aggs rest
            (context\<lparr>calls := calls context @ [rec_printer_print_record columns]\<rparr>,
             write_row columns outfile, num_rec + 1))"

definition select_from ::
  "(string \<Rightarrow> string) \<Rightarrow> AbstractExecutor \<Rightarrow> TabCol list \<Rightarrow> AggregateExpr list
     \<Rightarrow> Context \<Rightarrow> string \<Rightarrow> error + Context \<times> string" where
  "select_from fl executorTreeRoot sel_cols sel_aggs context output_txt =
     (case make_captions sel_cols sel_aggs of
        Inl e \<Rightarrow> Inl e
      | Inr captions \<Rightarrow>
          (let context1 = context\<lparr>calls := calls context @
                 [rec_printer_print_separator, rec_printer_print_record captions,
                  rec_printer_print_separator]\<rparr>;
               outfile = write_row captions output_txt
           in case print_records fl (exec_cols executorTreeRoot) sel_aggs
                     (tuples executorTreeRoot) (context1, outfile, 0) of
                Inl e \<Rightarrow> Inl e
              | Inr (context2, outfile', num_rec) \<Rightarrow>
                  Inr (context2\<lparr>calls := calls context2 @
                         [rec_printer_print_separator, print_record_count num_rec]\<rparr>,
                       outfile')))"

text \<open>The results of a list of reads: the values if all succeed, the first failure otherwise.\<close>

fun collect :: "(error + 'a) list \<Rightarrow> error + 'a list" where
  "collect [] = Inr []"
| "collect (x # xs) =
     (case x of
        Inl e \<Rightarrow> Inl e
      | Inr v \<Rightarrow> (case collect xs of Inl e \<Rightarrow> Inl e | Inr vs \<Rightarrow> Inr (v # vs)))"

text \<open>
  A line of the file in the words of the specification: a bar, then for each cell a space,
  the cell, a space and a bar, then a newline.
\<close>

definition file_line :: "string list \<Rightarrow> string" where
  "file_line cells = ''|'' @ concat (map (\<lambda>cell. '' '' @ cell @ '' |'') cells) @ ''\<newline>''"

text \<open>
  The reading of C3: without aggregates, the bytes of the \<open>i\<close>-th column start at the sum
  of the offsets of the columns before it.
\<close>

definition claimed_no_agg_columns ::
  "(string \<Rightarrow> string) \<Rightarrow> string \<Rightarrow> ColMeta list \<Rightarrow> error + string list" where
  "claimed_no_agg_columns fl tuple_data cols' =
     collect (map (\<lambda>i. col_str fl tuple_data (sum_list (map offset (take i cols'))) (cols' ! i))
                [0..<length cols'])"

text \<open>The text of one aggregate read at \<^verbatim>\<open>rec_buf\<close> (lines 230--237).\<close>

definition agg_value :: "(string \<Rightarrow> string) \<Rightarrow> string \<Rightarrow> int \<Rightarrow> AggregateExpr \<Rightarrow> error + string" where
  "agg_value fl tuple_data rec_buf agg =
     (case read_bytes tuple_data rec_buf 4 of
        Inl e \<Rightarrow> Inl e
      | Inr bs \<Rightarrow> Inr (if func_name agg = ''COUNT'' then to_string (int_of_bytes bs) else fl bs))"

text \<open>Three \<^verbatim>\<open>INT\<close> columns laid out one after the other, and a record holding 1, 2, 3.\<close>

definition cols_abc :: "ColMeta list" where
  "cols_abc = [int_col ''a'' 0, int_col ''b'' 4, int_col ''c'' 8]"

definition rec_123 :: RmRecord where
  "rec_123 = \<lparr>data = [CHR 0x01, CHR 0x00, CHR 0x00, CHR 0x00,
                       CHR 0x02, CHR 0x00, CHR 0x00, CHR 0x00,
                       CHR 0x03, CHR 0x00, CHR 0x00, CHR 0x00]\<rparr>"

text \<open>A stand-in for \<^verbatim>\<open>std::to_string(float)\<close> where no column is a float.\<close>

definition no_float :: "string \<Rightarrow> string" where
  "no_float bs = []"

definition ctx0 :: Context where
  "ctx0 = \<lparr>ctx_data_send = [], ctx_offset = 0, ctx_txn = ContextTxn, calls = []\<rparr>"

section \<open>Properties of \<^verbatim>\<open>pop_conds\<close>\<close>

lemma pop_conds_loop_filter:
  "pop_conds_loop T kept cs solved =
     (solved @ filter (pop_test T) cs, kept @ filter (\<lambda>c. \<not> pop_test T c) cs)"
  by (induction cs arbitrary: kept solved) simp_all

lemma pop_conds_filter:
  "pop_conds C T = (filter (pop_test T) C, filter (\<lambda>c. \<not> pop_test T c) C)"
  by (simp add: pop_conds_def pop_conds_loop_filter)

text \<open>
  C8.  For every condition list and table name \<open>T\<close>, \<^verbatim>\<open>pop_conds\<close> returns, in their original
  order, exactly the conditions whose left table is \<open>T\<close> with a literal on the right, or
  whose two column sides name the same table (whatever that table is), and leaves exactly
  the other conditions behind, in their original order.
\<close>

theorem pop_conds_partition:
  "pop_conds C T =
     (filter (\<lambda>c. (tab_name (lhs_col c) = T \<and> is_rhs_val c)
                   \<or> tab_name (lhs_col c) = tab_name (rhs_col c)) C,
      filter (\<lambda>c. \<not> ((tab_name (lhs_col c) = T \<and> is_rhs_val c)
                   \<or> tab_name (lhs_col c) = tab_name (rhs_col c))) C)"
proof -
  have "pop_test T = (\<lambda>c. (tab_name (lhs_col c) = T \<and> is_rhs_val c)
                   \<or> tab_name (lhs_col c) = tab_name (rhs_col c))"
    by (auto simp: pop_test_def fun_eq_iff)
  then show ?thesis
    by (simp add: pop_conds_filter)
qed

text \<open>
  An instance: popping for table \<^verbatim>\<open>r\<close> takes \<^verbatim>\<open>r.a = 1\<close> and also \<^verbatim>\<open>s.a = s.b\<close>, whose common table
  is another one, and leaves \<^verbatim>\<open>r.x = s.x\<close> and \<^verbatim>\<open>s.c < 5\<close> in place.
\<close>

theorem pop_conds_partition_witness:
  "pop_conds [col_cond ''r'' ''x'' OP_EQ ''s'' ''x'', val_cond ''r'' ''a'' OP_EQ (IntValue 1),
              val_cond ''s'' ''c'' OP_LT (IntValue 5), col_cond ''s'' ''a'' OP_EQ ''s'' ''b''] ''r''
   = ([val_cond ''r'' ''a'' OP_EQ (IntValue 1), col_cond ''s'' ''a'' OP_EQ ''s'' ''b''],
      [col_cond ''r'' ''x'' OP_EQ ''s'' ''x'', val_cond ''s'' ''c'' OP_LT (IntValue 5)])"
  using pop_conds_partition
    [of "[col_cond ''r'' ''x'' OP_EQ ''s'' ''x'', val_cond ''r'' ''a'' OP_EQ (IntValue 1),
          val_cond ''s'' ''c'' OP_LT (IntValue 5), col_cond ''s'' ''a'' OP_EQ ''s'' ''b'']" "''r''"]
  by (simp add: col_cond_def val_cond_def no_col_def)

section \<open>Properties of \<^verbatim>\<open>get_index_cols\<close>\<close>

lemma match_cols_takeWhile:
  "match_cols hit cs k = (k + length (takeWhile hit cs), list_all hit cs)"
  by (induction cs arbitrary: k) simp_all

lemma col_to_cond_map_fill_dom:
  "(col_to_cond_map_fill T cs m c \<noteq> None) \<longleftrightarrow>
     (m c \<noteq> None \<or> (\<exists>cond\<in>set cs. is_rhs_val cond \<and> tab_name (lhs_col cond) = T
                        \<and> col_name (lhs_col cond) = c))"
  by (induction cs arbitrary: m) auto

lemma best_index_None:
  "best_index hit idxs mx best = None \<longleftrightarrow> mx = 0 \<and> (\<forall>I\<in>set idxs. mlen hit I = 0)"
  by (induction idxs arbitrary: mx best) (auto simp: match_cols_takeWhile mlen_def)

lemma best_index_Some:
  "best_index hit idxs mx best = Some ns \<Longrightarrow>
     (ns = map name (cols best) \<and> 0 < mx \<and> (\<forall>I\<in>set idxs. mlen hit I \<le> mx))
     \<or> (\<exists>i<length idxs. ns = map name (cols (idxs ! i)) \<and> mx < mlen hit (idxs ! i)
          \<and> (\<forall>j<i. mlen hit (idxs ! j) < mlen hit (idxs ! i))
          \<and> (list_all hit (cols (idxs ! i)) \<or> (\<forall>j<length idxs. mlen hit (idxs ! j) \<le> mlen hit (idxs ! i)))
          \<and> (\<forall>j<i. list_all hit (cols (idxs ! j)) \<longrightarrow>
                mlen hit (idxs ! j) \<le> mx \<or> (\<exists>k<j. mlen hit (idxs ! j) \<le> mlen hit (idxs ! k))))"
proof (induction idxs arbitrary: mx best)
  case Nil
  then show ?case by (auto split: if_splits)
next
  case (Cons I idxs)
  let ?m0 = "mlen hit I"
  have mc: "match_cols hit (cols I) 0 = (?m0, list_all hit (cols I))"
    by (simp add: match_cols_takeWhile mlen_def)
  show ?case
  proof (cases "mx < ?m0")
    case False
    with Cons.prems mc have "best_index hit idxs mx best = Some ns" by simp
    from Cons.IH[OF this] consider
      (A) "ns = map name (cols best)" "0 < mx" "\<forall>I\<in>set idxs. mlen hit I \<le> mx"
      | (B) i where "i < length idxs" "ns = map name (cols (idxs ! i))" "mx < mlen hit (idxs ! i)"
        "\<forall>j<i. mlen hit (idxs ! j) < mlen hit (idxs ! i)"
        "list_all hit (cols (idxs ! i)) \<or> (\<forall>j<length idxs. mlen hit (idxs ! j) \<le> mlen hit (idxs ! i))"
        "\<forall>j<i. list_all hit (cols (idxs ! j)) \<longrightarrow>
                mlen hit (idxs ! j) \<le> mx \<or> (\<exists>k<j. mlen hit (idxs ! j) \<le> mlen hit (idxs ! k))"
      by (elim disjE exE conjE) blast+
    then show ?thesis
    proof cases
      case A
      with False show ?thesis by auto
    next
      case B
      with False show ?thesis
        by (intro disjI2 exI[of _ "Suc i"]) (auto simp: All_less_Suc2 Ex_less_Suc2)
    qed
  next
    case True
    show ?thesis
    proof (cases "list_all hit (cols I)")
      case full: True
      with Cons.prems mc True have "ns = map name (cols I)" by simp
      with True full show ?thesis by (intro disjI2 exI[of _ 0]) simp
    next
      case nf: False
      with Cons.prems mc True have "best_index hit idxs ?m0 I = Some ns" by simp
      from Cons.IH[OF this] consider
        (A) "ns = map name (cols I)" "0 < mlen hit I" "\<forall>J\<in>set idxs. mlen hit J \<le> mlen hit I"
        | (B) i where "i < length idxs" "ns = map name (cols (idxs ! i))" "mlen hit I < mlen hit (idxs ! i)"
          "\<forall>j<i. mlen hit (idxs ! j) < mlen hit (idxs ! i)"
          "list_all hit (cols (idxs ! i)) \<or> (\<forall>j<length idxs. mlen hit (idxs ! j) \<le> mlen hit (idxs ! i))"
          "\<forall>j<i. list_all hit (cols (idxs ! j)) \<longrightarrow>
                mlen hit (idxs ! j) \<le> mlen hit I \<or> (\<exists>k<j. mlen hit (idxs ! j) \<le> mlen hit (idxs ! k))"
        by (elim disjE exE conjE) blast+
      then show ?thesis
      proof cases
        case A
        with True nf show ?thesis
          by (intro disjI2 exI[of _ 0]) (auto simp: All_less_Suc2)
      next
        case B
        with True nf show ?thesis
          by (intro disjI2 exI[of _ "Suc i"]) (auto simp: All_less_Suc2 Ex_less_Suc2)
      qed
    qed
  qed
qed

lemma hit_eq: "(\<lambda>idx_col. col_to_cond_map_fill T C Map.empty (name idx_col) \<noteq> None)
   = (\<lambda>col. value_pred_on T C (name col))"
  by (intro ext) (simp only: col_to_cond_map_fill_dom value_pred_on_def, auto)

text \<open>
  C1 (amended).  \<^verbatim>\<open>get_index_cols(T, C)\<close> succeeds iff some index of \<open>T\<close> has a non-empty
  matched prefix, a column being matched when \<open>C\<close> has a condition with that column of \<open>T\<close> on
  the left and a literal on the right, under any comparison operator.  It then returns
  the names of all the columns of the selected index, not only of the matched prefix.  The
  selected index is the first one, in catalog order, whose matched prefix is non-empty,
  longer than that of every earlier index, and either covers the whole index or is as long
  as the matched prefix of every index of the table (an earlier index that was fully
  matched with a new maximum would have been returned at once).  On failure the name list
  is empty.  For \<^verbatim>\<open>t(a, b, c)\<close> with an index on \<^verbatim>\<open>(a, b)\<close> and the conditions \<^verbatim>\<open>a = 1 AND c = 3\<close>
  the result is \<^verbatim>\<open>[a, b]\<close>.
\<close>

theorem get_index_cols_selects:
  "(fst (get_index_cols db T C) \<longleftrightarrow> (\<exists>I\<in>set (indexes (db T)). matched_prefix T C I \<noteq> []))
   \<and> (\<not> fst (get_index_cols db T C) \<longrightarrow> snd (get_index_cols db T C) = [])
   \<and> (fst (get_index_cols db T C) \<longrightarrow>
        (\<exists>i<length (indexes (db T)).
           snd (get_index_cols db T C) = map name (cols (indexes (db T) ! i))
           \<and> matched_prefix T C (indexes (db T) ! i) \<noteq> []
           \<and> (\<forall>j<i. length (matched_prefix T C (indexes (db T) ! j))
                     < length (matched_prefix T C (indexes (db T) ! i)))
           \<and> (matched_prefix T C (indexes (db T) ! i) = cols (indexes (db T) ! i)
               \<or> (\<forall>j<length (indexes (db T)).
                     length (matched_prefix T C (indexes (db T) ! j))
                       \<le> length (matched_prefix T C (indexes (db T) ! i))))
           \<and> (\<forall>j<i. matched_prefix T C (indexes (db T) ! j) = cols (indexes (db T) ! j) \<longrightarrow>
                  matched_prefix T C (indexes (db T) ! j) = []
                  \<or> (\<exists>k<j. length (matched_prefix T C (indexes (db T) ! j))
                              \<le> length (matched_prefix T C (indexes (db T) ! k))))))
   \<and> get_index_cols db_t_ab ''t''
        [val_cond ''t'' ''a'' OP_EQ (IntValue 1), val_cond ''t'' ''c'' OP_EQ (IntValue 3)]
      = (True, [''a'', ''b''])"
  (is "?A \<and> ?B \<and> ?C \<and> ?D")
proof -
  let ?hit = "\<lambda>col. value_pred_on T C (name col)"
  let ?idxs = "indexes (db T)"
  let ?r = "best_index ?hit ?idxs 0 IndexMeta_default"
  have g: "get_index_cols db T C = (case ?r of None \<Rightarrow> (False, []) | Some ns \<Rightarrow> (True, ns))"
    unfolding get_index_cols_def Let_def hit_eq by simp
  have mp: "\<And>I. length (matched_prefix T C I) = mlen ?hit I"
    by (simp add: matched_prefix_def mlen_def)
  have full: "\<And>I. matched_prefix T C I = cols I \<longleftrightarrow> list_all ?hit (cols I)"
    by (simp add: matched_prefix_def list_all_iff)
  have ne: "\<And>I. matched_prefix T C I \<noteq> [] \<longleftrightarrow> 0 < mlen ?hit I"
    by (simp add: matched_prefix_def mlen_def)
  have A: ?A
  proof (cases ?r)
    case None
    then show ?thesis using best_index_None[of ?hit ?idxs 0 IndexMeta_default]
      by (simp add: g ne)
  next
    case (Some ns)
    then have "\<not> (\<forall>I\<in>set ?idxs. mlen ?hit I = 0)"
      using best_index_None[of ?hit ?idxs 0 IndexMeta_default] by simp
    with Some show ?thesis by (auto simp: g ne)
  qed
  have B: ?B by (simp add: g split: option.splits)
  have C: ?C
  proof
    assume "fst (get_index_cols db T C)"
    then obtain ns where ns: "?r = Some ns" "snd (get_index_cols db T C) = ns"
      by (auto simp: g split: option.splits)
    from best_index_Some[OF ns(1)] show "\<exists>i<length ?idxs. snd (get_index_cols db T C) = map name (cols (?idxs ! i))
           \<and> matched_prefix T C (?idxs ! i) \<noteq> []
           \<and> (\<forall>j<i. length (matched_prefix T C (?idxs ! j))
                     < length (matched_prefix T C (?idxs ! i)))
           \<and> (matched_prefix T C (?idxs ! i) = cols (?idxs ! i)
               \<or> (\<forall>j<length ?idxs.
                     length (matched_prefix T C (?idxs ! j))
                       \<le> length (matched_prefix T C (?idxs ! i))))
           \<and> (\<forall>j<i. matched_prefix T C (?idxs ! j) = cols (?idxs ! j) \<longrightarrow>
                  matched_prefix T C (?idxs ! j) = []
                  \<or> (\<exists>k<j. length (matched_prefix T C (?idxs ! j))
                              \<le> length (matched_prefix T C (?idxs ! k))))"
      unfolding ns(2) mp full
      by (simp add: matched_prefix_def mlen_def)
  qed
  have D: ?D
    by (simp add: get_index_cols_def db_t_ab_def val_cond_def int_col_def no_col_def)
  from A B C D show ?thesis by blast
qed

text \<open>
  An instance with two indexes, \<^verbatim>\<open>(a)\<close> then \<^verbatim>\<open>(a, b)\<close>, and the conditions \<^verbatim>\<open>a = 1 AND b = 2\<close>: the
  call succeeds, and the first index, fully matched, is returned at once.
\<close>

theorem get_index_cols_selects_witness:
  "fst (get_index_cols db_t_a_ab ''t''
          [val_cond ''t'' ''a'' OP_EQ (IntValue 1), val_cond ''t'' ''b'' OP_EQ (IntValue 2)])
   \<and> snd (get_index_cols db_t_a_ab ''t''
          [val_cond ''t'' ''a'' OP_EQ (IntValue 1), val_cond ''t'' ''b'' OP_EQ (IntValue 2)])
       = [''a'']"
  using get_index_cols_selects [of db_t_a_ab "''t''"
      "[val_cond ''t'' ''a'' OP_EQ (IntValue 1), val_cond ''t'' ''b'' OP_EQ (IntValue 2)]"]
  by (simp add: get_index_cols_def db_t_a_ab_def val_cond_def int_col_def no_col_def)

text \<open>
  C1 as stated fails.  With the index on \<^verbatim>\<open>(a, b)\<close> and the conditions \<^verbatim>\<open>a = 1 AND c = 3\<close> the
  result is not the matched prefix \<^verbatim>\<open>[a]\<close>; and the single range condition \<^verbatim>\<open>a < 1\<close>, which is no
  equality, makes the call succeed.
\<close>

theorem get_index_cols_prefix_counterexample:
  "get_index_cols db_t_ab ''t''
      [val_cond ''t'' ''a'' OP_EQ (IntValue 1), val_cond ''t'' ''c'' OP_EQ (IntValue 3)]
     \<noteq> (True, [''a''])
   \<and> fst (get_index_cols db_t_ab ''t'' [val_cond ''t'' ''a'' OP_LT (IntValue 1)])"
  by (simp add: get_index_cols_def db_t_ab_def val_cond_def int_col_def no_col_def)

section \<open>Properties of \<^verbatim>\<open>run_cmd_utility\<close>\<close>

text \<open>
  C9.  Dispatching a \<^verbatim>\<open>ShowIndex\<close> plan calls \<^verbatim>\<open>show_indexs\<close> on the plan's table and then, the
  block having no \<^verbatim>\<open>break\<close>, \<^verbatim>\<open>desc_table\<close> on the same table name.  Every other utility tag runs
  its own block only: \<^verbatim>\<open>ShowTable\<close> calls \<^verbatim>\<open>show_tables\<close>, \<^verbatim>\<open>DescTable\<close> calls \<^verbatim>\<open>desc_table\<close>,
  \<^verbatim>\<open>Transaction_begin\<close> sets the mode of the context's transaction, commit, rollback and abort
  fetch the transaction by id and commit or abort it, and \<^verbatim>\<open>Help\<close> copies the help text into
  the send buffer and calls nothing.
\<close>

theorem run_cmd_utility_show_index_falls_through:
  "run_cmd_utility (OtherPlan T_ShowIndex tab) txn_id ctx
     = Inr (ctx\<lparr>calls := calls ctx @ [sm_show_indexs tab, sm_desc_table tab]\<rparr>)
   \<and> run_cmd_utility (OtherPlan T_ShowTable tab) txn_id ctx
     = Inr (ctx\<lparr>calls := calls ctx @ [sm_show_tables]\<rparr>)
   \<and> run_cmd_utility (OtherPlan T_DescTable tab) txn_id ctx
     = Inr (ctx\<lparr>calls := calls ctx @ [sm_desc_table tab]\<rparr>)
   \<and> run_cmd_utility (OtherPlan T_Transaction_begin tab) txn_id ctx
     = Inr (ctx\<lparr>calls := calls ctx @ [txn_set_txn_mode (ctx_txn ctx) True]\<rparr>)
   \<and> run_cmd_utility (OtherPlan T_Transaction_commit tab) txn_id ctx
     = Inr (ctx\<lparr>ctx_txn := TxnById txn_id,
               calls := calls ctx @ [txn_mgr_get_transaction txn_id, txn_mgr_commit (TxnById txn_id)]\<rparr>)
   \<and> run_cmd_utility (OtherPlan T_Transaction_rollback tab) txn_id ctx
     = Inr (ctx\<lparr>ctx_txn := TxnById txn_id,
               calls := calls ctx @ [txn_mgr_get_transaction txn_id, txn_mgr_abort (TxnById txn_id)]\<rparr>)
   \<and> run_cmd_utility (OtherPlan T_Transaction_abort tab) txn_id ctx
     = Inr (ctx\<lparr>ctx_txn := TxnById txn_id,
               calls := calls ctx @ [txn_mgr_get_transaction txn_id, txn_mgr_abort (TxnById txn_id)]\<rparr>)
   \<and> run_cmd_utility (OtherPlan T_Help tab) txn_id ctx
     = (if ctx_offset ctx + length help_info \<le> length (ctx_data_send ctx)
        then Inr (ctx\<lparr>ctx_data_send := take (ctx_offset ctx) (ctx_data_send ctx) @ help_info
                          @ drop (ctx_offset ctx + length help_info) (ctx_data_send ctx),
                       ctx_offset := length help_info\<rparr>)
        else Inl UndefinedBehaviour)"
  by (simp add: run_cmd_utility_def other_plan_cases_def invoke_def seq_def memcpy_send_def)

text \<open>An instance: \<^verbatim>\<open>SHOW INDEX FROM t\<close> on a context that has seen no call yet.\<close>

theorem run_cmd_utility_show_index_witness:
  "run_cmd_utility (OtherPlan T_ShowIndex ''t'') 7
      \<lparr>ctx_data_send = replicate 8 (CHR 0x00), ctx_offset = 0, ctx_txn = ContextTxn, calls = []\<rparr>
     = Inr \<lparr>ctx_data_send = replicate 8 (CHR 0x00), ctx_offset = 0, ctx_txn = ContextTxn,
            calls = [sm_show_indexs ''t'', sm_desc_table ''t'']\<rparr>"
  using run_cmd_utility_show_index_falls_through
    [of "''t''" 7 "\<lparr>ctx_data_send = replicate 8 (CHR 0x00), ctx_offset = 0, ctx_txn = ContextTxn,
                    calls = []\<rparr>"]
  by simp

section \<open>Properties of \<^verbatim>\<open>select_from\<close>\<close>

lemma collect_length: "collect xs = Inr vs \<Longrightarrow> length vs = length xs"
  by (induction xs arbitrary: vs) (auto split: sum.splits)

lemma collect_append:
  "collect (xs @ ys) =
     (case collect xs of Inl e \<Rightarrow> Inl e
      | Inr vs \<Rightarrow> (case collect ys of Inl e \<Rightarrow> Inl e | Inr ws \<Rightarrow> Inr (vs @ ws)))"
  by (induction xs) (auto split: sum.splits)

lemma no_agg_columns_collect:
  "no_agg_columns fl d cs off acc =
     (case collect (map (\<lambda>col. col_str fl d (offset col) col) cs) of
        Inl e \<Rightarrow> Inl e | Inr vs \<Rightarrow> Inr (acc @ vs))"
  by (induction cs arbitrary: off acc) (auto split: sum.splits)

lemma upt_Suc_shift: "[0..<Suc n] = 0 # map Suc [0..<n]"
  by (simp add: upt_conv_Cons map_Suc_upt del: upt_Suc)

lemma agg_columns_collect:
  "agg_columns fl d cs off acc =
     (case collect (map (\<lambda>i. col_str fl d (off + sum_list (map len (take i cs))) (cs ! i))
                      [0..<length cs]) of
        Inl e \<Rightarrow> Inl e | Inr vs \<Rightarrow> Inr (acc @ vs, off + sum_list (map len cs)))"
proof (induction cs arbitrary: off acc)
  case Nil
  show ?case by simp
next
  case (Cons c cs)
  have "map (\<lambda>i. col_str fl d (off + sum_list (map len (take i (c # cs)))) ((c # cs) ! i))
            [0..<length (c # cs)]
        = col_str fl d off c
          # map (\<lambda>i. col_str fl d (off + len c + sum_list (map len (take i cs))) (cs ! i))
              [0..<length cs]"
    by (simp only: length_Cons upt_Suc_shift) (simp add: o_def add.assoc)
  then show ?case
    by (simp add: Cons.IH add.assoc split: sum.splits del: upt_Suc)
qed

lemma agg_values_collect:
  "agg_values fl d aggs off acc =
     (case collect (map (\<lambda>k. agg_value fl d (off + 4 * int k) (aggs ! k)) [0..<length aggs]) of
        Inl e \<Rightarrow> Inl e | Inr vs \<Rightarrow> Inr (acc @ vs))"
proof (induction aggs arbitrary: off acc)
  case Nil
  show ?case by simp
next
  case (Cons a aggs)
  have "map (\<lambda>k. agg_value fl d (off + 4 * int k) ((a # aggs) ! k)) [0..<length (a # aggs)]
        = agg_value fl d off a
          # map (\<lambda>k. agg_value fl d (off + 4 + 4 * int k) (aggs ! k)) [0..<length aggs]"
    by (simp only: length_Cons upt_Suc_shift) (simp add: o_def algebra_simps)
  then show ?case
    by (simp add: Cons.IH agg_value_def split: sum.splits del: upt_Suc)
qed

text \<open>
  C3 (amended).  Without aggregates, the bytes turned into text for each output column
  start at the column's own declared offset; the accumulator \<^verbatim>\<open>cols_offset\<close>, advanced by
  \<^verbatim>\<open>col.offset\<close>, is never read.  With aggregates, the bytes of the \<open>i\<close>-th column start at the
  sum of the \<^verbatim>\<open>len\<close> of the columns before it, and the \<open>k\<close>-th aggregate is read at the sum of
  all the \<^verbatim>\<open>len\<close> plus \<open>4k\<close>.
\<close>

theorem tuple_columns_read_offsets:
  "tuple_columns fl cs [] T = collect (map (\<lambda>col. col_str fl (data T) (offset col) col) cs)
   \<and> tuple_columns fl cs (a # aggs) T =
       (case collect (map (\<lambda>i. col_str fl (data T) (sum_list (map len (take i cs))) (cs ! i))
                        [0..<length cs]) of
          Inl e \<Rightarrow> Inl e
        | Inr cells \<Rightarrow>
            (case collect (map (\<lambda>k. agg_value fl (data T) (sum_list (map len cs) + 4 * int k)
                                      ((a # aggs) ! k)) [0..<length (a # aggs)]) of
               Inl e \<Rightarrow> Inl e
             | Inr agg_cells \<Rightarrow> Inr (cells @ agg_cells)))"
proof
  show "tuple_columns fl cs [] T = collect (map (\<lambda>col. col_str fl (data T) (offset col) col) cs)"
    by (simp add: tuple_columns_def no_agg_columns_collect split: sum.splits)
  show "tuple_columns fl cs (a # aggs) T =
       (case collect (map (\<lambda>i. col_str fl (data T) (sum_list (map len (take i cs))) (cs ! i))
                        [0..<length cs]) of
          Inl e \<Rightarrow> Inl e
        | Inr cells \<Rightarrow>
            (case collect (map (\<lambda>k. agg_value fl (data T) (sum_list (map len cs) + 4 * int k)
                                      ((a # aggs) ! k)) [0..<length (a # aggs)]) of
               Inl e \<Rightarrow> Inl e
             | Inr agg_cells \<Rightarrow> Inr (cells @ agg_cells)))"
    unfolding tuple_columns_def
    by (simp only: agg_columns_collect agg_values_collect) (simp split: sum.splits del: upt_Suc)
qed

text \<open>An instance: the record holding 1, 2, 3 under the three-column schema.\<close>

theorem tuple_columns_read_offsets_witness:
  "tuple_columns no_float cols_abc [] rec_123
     = collect (map (\<lambda>col. col_str no_float (data rec_123) (offset col) col) cols_abc)
   \<and> tuple_columns no_float cols_abc [] rec_123 = Inr [''1'', ''2'', ''3'']"
  using tuple_columns_read_offsets [of no_float cols_abc rec_123, THEN conjunct1]
  by (simp add: cols_abc_def rec_123_def int_col_def col_str_def read_bytes_def
        int_of_bytes_def to_string_def)

text \<open>
  C3 as stated fails: on that record the code prints 1, 2, 3, and reading at the sums of
  the preceding offsets (0, 0 and 4) would print 1, 1, 2.
\<close>

theorem no_agg_cumulative_offset_counterexample:
  "tuple_columns no_float cols_abc [] rec_123 = Inr [''1'', ''2'', ''3'']
   \<and> claimed_no_agg_columns no_float (data rec_123) cols_abc = Inr [''1'', ''1'', ''2'']"
  by (simp add: tuple_columns_def claimed_no_agg_columns_def cols_abc_def rec_123_def
        int_col_def col_str_def read_bytes_def int_of_bytes_def to_string_def)

lemma write_cells_concat:
  "write_cells cells out = out @ concat (map (\<lambda>cell. '' '' @ cell @ '' |'') cells)"
  by (induction cells arbitrary: out) simp_all

lemma write_row_file_line: "write_row cells out = out @ file_line cells"
  by (simp add: write_row_def file_line_def write_cells_concat)

lemma print_records_collect:
  "print_records fl cs aggs ts (ctx, out, n) =
     (case collect (map (tuple_columns fl cs aggs) ts) of
        Inl e \<Rightarrow> Inl e
      | Inr rows \<Rightarrow>
          Inr (ctx\<lparr>calls := calls ctx @ map rec_printer_print_record rows\<rparr>,
               out @ concat (map file_line rows), n + length rows))"
  by (induction ts arbitrary: ctx out n) (auto simp: write_row_file_line split: sum.splits)

text \<open>
  C10.  A \<^verbatim>\<open>SELECT\<close> appends to \<^verbatim>\<open>output.txt\<close> one header line and one line for each result
  tuple, each line a bar, then a space, the cell, a space and a bar for each cell, then a
  newline; no separator and no record count reach the file.  The client buffer receives
  separator, header, separator, the rows, the footer separator and the record count.  Over
  an executor that yields no tuple the file grows by the header line alone and the buffer
  receives header, footer and a count of 0.
\<close>

theorem select_from_output:
  "select_from fl ex sel_cols sel_aggs ctx out =
     (case make_captions sel_cols sel_aggs of
        Inl e \<Rightarrow> Inl e
      | Inr captions \<Rightarrow>
          (case collect (map (tuple_columns fl (exec_cols ex) sel_aggs) (tuples ex)) of
             Inl e \<Rightarrow> Inl e
           | Inr rows \<Rightarrow>
               Inr (ctx\<lparr>calls := calls ctx @
                      [rec_printer_print_separator, rec_printer_print_record captions,
                       rec_printer_print_separator]
                      @ map rec_printer_print_record rows
                      @ [rec_printer_print_separator, print_record_count (length (tuples ex))]\<rparr>,
                    out @ file_line captions @ concat (map file_line rows))))
   \<and> (\<forall>rows. collect (map (tuple_columns fl (exec_cols ex) sel_aggs) (tuples ex)) = Inr rows
         \<longrightarrow> length rows = length (tuples ex))
   \<and> (\<forall>captions. make_captions sel_cols sel_aggs = Inr captions \<and> tuples ex = [] \<longrightarrow>
         select_from fl ex sel_cols sel_aggs ctx out =
           Inr (ctx\<lparr>calls := calls ctx @
                  [rec_printer_print_separator, rec_printer_print_record captions,
                   rec_printer_print_separator, rec_printer_print_separator,
                   print_record_count 0]\<rparr>,
                out @ file_line captions))"
  (is "?A \<and> ?B \<and> ?C")
proof -
  have A: ?A
    by (auto simp: select_from_def print_records_collect write_row_file_line
          dest: collect_length split: sum.splits)
  have B: ?B using collect_length by fastforce
  have C: ?C by (auto simp: select_from_def write_row_file_line)
  from A B C show ?thesis by blast
qed

text \<open>An instance: \<^verbatim>\<open>SELECT a, b, c\<close> over one record, into a file that holds a line already.\<close>

theorem select_from_output_witness:
  "select_from no_float \<lparr>exec_cols = cols_abc, tuples = [rec_123]\<rparr>
      [\<lparr>tab_name = ''t'', col_name = ''a''\<rparr>, \<lparr>tab_name = ''t'', col_name = ''b''\<rparr>,
       \<lparr>tab_name = ''t'', col_name = ''c''\<rparr>] [] ctx0 ''| x |\<newline>''
     = Inr (ctx0\<lparr>calls :=
               [rec_printer_print_separator, rec_printer_print_record [''a'', ''b'', ''c''],
                rec_printer_print_separator, rec_printer_print_record [''1'', ''2'', ''3''],
                rec_printer_print_separator, print_record_count 1]\<rparr>,
            ''| x |\<newline>| a | b | c |\<newline>| 1 | 2 | 3 |\<newline>'')"
  using select_from_output [of no_float "\<lparr>exec_cols = cols_abc, tuples = [rec_123]\<rparr>"
      "[\<lparr>tab_name = ''t'', col_name = ''a''\<rparr>, \<lparr>tab_name = ''t'', col_name = ''b''\<rparr>,
        \<lparr>tab_name = ''t'', col_name = ''c''\<rparr>]" "[]" ctx0 "''| x |\<newline>''", THEN conjunct1]
  by (simp add: make_captions_def tuple_columns_def file_line_def ctx0_def cols_abc_def
        rec_123_def int_col_def col_str_def read_bytes_def int_of_bytes_def to_string_def)

section \<open>Properties of \<^verbatim>\<open>pop_scan\<close>\<close>

lemma pop_scan_from_None:
  "list_all is_scan plans \<Longrightarrow> tab_name col \<notin> plan_tab ` set plans \<Longrightarrow>
     pop_scan_from db col i plans scantbl joined = Inr (nullptr, scantbl, joined)"
proof (induction plans arbitrary: i)
  case Nil
  show ?case by simp
next
  case (Cons p plans)
  then show ?case by (cases p) auto
qed

lemma pop_scan_from_Some:
  "list_all is_scan plans \<Longrightarrow> k < length plans \<Longrightarrow> plan_tab (plans ! k) = tab_name col \<Longrightarrow>
   \<forall>j<k. plan_tab (plans ! j) \<noteq> tab_name col \<Longrightarrow>
   \<exists>tag ic. pop_scan_from db col i plans scantbl joined
       = Inr (ScanPlan tag (tab_name col) (plan_fed (plans ! k)) ic,
              scantbl[i + k := 1], joined @ [tab_name col])
     \<and> (scan_tag_ok (plans ! k) \<longrightarrow> tag = T_SeqScan \<or> tag = T_IndexScan)"
proof (induction plans arbitrary: i k)
  case Nil
  then show ?case by simp
next
  case (Cons p plans)
  from Cons.prems(1) obtain tag tab fed ic where p: "p = ScanPlan tag tab fed ic"
    by (cases p) auto
  show ?case
  proof (cases k)
    case 0
    with Cons.prems p have "tab = tab_name col" by simp
    with 0 p show ?thesis
      by (auto simp: Let_def split: option.splits)
  next
    case (Suc k')
    with Cons.prems p have ne: "tab \<noteq> tab_name col" by auto
    from Cons.prems Suc have "list_all is_scan plans" "k' < length plans"
      "plan_tab (plans ! k') = tab_name col" "\<forall>j<k'. plan_tab (plans ! j) \<noteq> tab_name col"
      by auto
    from Cons.IH[OF this, of "i + 1"] ne p Suc show ?thesis by simp
  qed
qed

lemma pop_scan_from_found:
  assumes "list_all is_scan plans" "tab_name col \<in> plan_tab ` set plans"
  shows "\<exists>tag fed ic scantbl'. pop_scan_from db col i plans scantbl joined
       = Inr (ScanPlan tag (tab_name col) fed ic, scantbl', joined @ [tab_name col])"
proof -
  let ?P = "\<lambda>k. k < length plans \<and> plan_tab (plans ! k) = tab_name col"
  from assms(2) obtain k0 where "?P k0" by (auto simp: in_set_conv_nth)
  define k where "k = (LEAST k. ?P k)"
  have k: "?P k" unfolding k_def by (rule LeastI[of ?P, OF \<open>?P k0\<close>])
  have "\<forall>j<k. plan_tab (plans ! j) \<noteq> tab_name col"
  proof (intro allI impI)
    fix j assume "j < k"
    then have "\<not> ?P j" unfolding k_def by (rule not_less_Least)
    with \<open>j < k\<close> k show "plan_tab (plans ! j) \<noteq> tab_name col" by auto
  qed
  with pop_scan_from_Some[OF assms(1), of k col db i scantbl joined] k show ?thesis by blast
qed

lemma pop_scan_from_exact:
  "list_all is_scan plans \<Longrightarrow> k < length plans \<Longrightarrow> plan_tab (plans ! k) = tab_name col \<Longrightarrow>
   \<forall>j<k. plan_tab (plans ! j) \<noteq> tab_name col \<Longrightarrow>
   pop_scan_from db col i plans scantbl joined
     = Inr (popped_scan db col (plans ! k), scantbl[i + k := 1], joined @ [tab_name col])"
proof (induction plans arbitrary: i k)
  case Nil
  then show ?case by simp
next
  case (Cons p plans)
  from Cons.prems(1) obtain tag tab fed ic where p: "p = ScanPlan tag tab fed ic"
    by (cases p) auto
  show ?case
  proof (cases k)
    case 0
    with Cons.prems p have "tab = tab_name col" by simp
    with 0 p show ?thesis
      by (auto simp: Let_def popped_scan_def split: option.splits)
  next
    case (Suc k')
    with Cons.prems p have ne: "tab \<noteq> tab_name col" by auto
    from Cons.prems Suc have "list_all is_scan plans" "k' < length plans"
      "plan_tab (plans ! k') = tab_name col" "\<forall>j<k'. plan_tab (plans ! j) \<noteq> tab_name col"
      by auto
    from Cons.IH[OF this, of "i + 1"] ne p Suc show ?thesis by simp
  qed
qed

lemma popped_scan_keeps:
  "is_scan p \<Longrightarrow> is_scan (popped_scan db col p) \<and> plan_fed (popped_scan db col p) = plan_fed p"
  by (cases p) (auto simp: popped_scan_def split: option.splits)

lemma popped_scan_tab:
  "plan_tab p = tab_name col \<Longrightarrow> plan_tab (popped_scan db col p) = tab_name col"
  by (cases p) (auto simp: popped_scan_def split: option.splits)

lemma popped_scan_no_index:
  assumes "\<forall>I\<in>set (indexes (db (plan_tab p))).
             takeWhile (\<lambda>idx_col. col_name col = name idx_col) (cols I) = []"
  shows "popped_scan db col p = p"
proof (cases p)
  case (ScanPlan tag tab fed ic)
  with assms have "best_index (\<lambda>idx_col. col_name col = name idx_col)
      (indexes (db tab)) 0 IndexMeta_default = None"
    by (simp add: best_index_None mlen_def)
  with ScanPlan show ?thesis by (simp add: popped_scan_def)
qed (simp_all add: popped_scan_def)

lemma popped_scan_index:
  assumes "popped_scan db col p \<noteq> p"
  shows "\<exists>I\<in>set (indexes (db (plan_tab p))).
           takeWhile (\<lambda>idx_col. col_name col = name idx_col) (cols I) \<noteq> []
           \<and> popped_scan db col p = ScanPlan T_IndexScan (tab_name col) (plan_fed p) (map name (cols I))"
proof (cases p)
  case (ScanPlan tag tab fed ic)
  let ?hit = "\<lambda>idx_col. col_name col = name idx_col"
  from assms ScanPlan obtain ns where
    ns: "best_index ?hit (indexes (db tab)) 0 IndexMeta_default = Some ns"
    and res: "popped_scan db col p = ScanPlan T_IndexScan (tab_name col) fed ns"
    by (auto simp: popped_scan_def split: if_splits option.splits)
  from best_index_Some[OF ns] obtain i where i: "i < length (indexes (db tab))"
    "ns = map name (cols (indexes (db tab) ! i))" "0 < mlen ?hit (indexes (db tab) ! i)"
    by auto
  from i(1) have "indexes (db tab) ! i \<in> set (indexes (db (plan_tab p)))"
    using ScanPlan by simp
  moreover from i(3) have "takeWhile ?hit (cols (indexes (db tab) ! i)) \<noteq> []"
    by (auto simp: mlen_def)
  moreover from res i(2) ScanPlan have "popped_scan db col p
      = ScanPlan T_IndexScan (tab_name col) (plan_fed p) (map name (cols (indexes (db tab) ! i)))"
    by simp
  ultimately show ?thesis by blast
qed (use assms in \<open>simp_all add: popped_scan_def\<close>)

section \<open>Properties of \<^verbatim>\<open>make_one_rel\<close>\<close>

text \<open>
  C7.  In the second loop, when exactly one side of the condition names a table that is
  not yet in \<^verbatim>\<open>joined_tables\<close>, and \<open>k\<close> is the first scan of that table, the step returns a
  nested-loop join whose left input is \<^verbatim>\<open>popped_scan\<close> of scan \<open>k\<close> and whose right input is the
  running tree, marks entry \<open>k\<close> of \<^verbatim>\<open>scantbl\<close> and appends the table to \<^verbatim>\<open>joined_tables\<close>.  The
  join carries the condition as it is when the new table is on its left, and with its sides
  swapped and its operator inverted by the table EQ/EQ, NE/NE, LT/GT, GT/LT, LE/GE, GE/LE
  when the new table is on its right, so that the left side always names the new table.
  The popped scan is a scan of the same table with the same \<^verbatim>\<open>fed_conds_\<close>; it is the scan
  itself when no index of the table is led by the join column, and when it differs it is an
  index scan over all the columns of such an index.  With tables \<^verbatim>\<open>a, b, c\<close> and the conditions
  \<^verbatim>\<open>a.k = b.k AND c.k = a.k\<close>, the join above the tree of \<^verbatim>\<open>a\<close> and \<^verbatim>\<open>b\<close> carries \<^verbatim>\<open>c.k = a.k\<close>.
\<close>

theorem join_next_one_side_new:
  "(k < length scans \<and> list_all is_scan scans
      \<and> plan_tab (scans ! k) = tab_name (lhs_col cond)
      \<and> (\<forall>j<k. plan_tab (scans ! j) \<noteq> tab_name (lhs_col cond))
      \<and> tab_name (lhs_col cond) \<notin> set joined \<and> tab_name (rhs_col cond) \<in> set joined
    \<longrightarrow> join_next db scans cond (tree, scantbl, joined)
          = Inr (JoinPlan T_NestLoop (popped_scan db (lhs_col cond) (scans ! k)) tree [cond],
                 scantbl[k := 1], joined @ [tab_name (lhs_col cond)]))
   \<and> (k < length scans \<and> list_all is_scan scans
      \<and> plan_tab (scans ! k) = tab_name (rhs_col cond)
      \<and> (\<forall>j<k. plan_tab (scans ! j) \<noteq> tab_name (rhs_col cond))
      \<and> tab_name (lhs_col cond) \<in> set joined \<and> tab_name (rhs_col cond) \<notin> set joined
    \<longrightarrow> join_next db scans cond (tree, scantbl, joined)
          = Inr (JoinPlan T_NestLoop (popped_scan db (rhs_col cond) (scans ! k)) tree
                   [cond\<lparr>lhs_col := rhs_col cond, rhs_col := lhs_col cond,
                         op := swap_op (op cond)\<rparr>],
                 scantbl[k := 1], joined @ [tab_name (rhs_col cond)]))
   \<and> (is_scan p \<longrightarrow> is_scan (popped_scan db col p)
         \<and> plan_fed (popped_scan db col p) = plan_fed p
         \<and> (plan_tab p = tab_name col \<longrightarrow> plan_tab (popped_scan db col p) = tab_name col))
   \<and> ((\<forall>I\<in>set (indexes (db (plan_tab p))).
          takeWhile (\<lambda>idx_col. col_name col = name idx_col) (cols I) = [])
        \<longrightarrow> popped_scan db col p = p)
   \<and> (popped_scan db col p \<noteq> p \<longrightarrow>
        (\<exists>I\<in>set (indexes (db (plan_tab p))).
           takeWhile (\<lambda>idx_col. col_name col = name idx_col) (cols I) \<noteq> []
           \<and> popped_scan db col p
               = ScanPlan T_IndexScan (tab_name col) (plan_fed p) (map name (cols I))))
   \<and> swap_op OP_EQ = OP_EQ \<and> swap_op OP_NE = OP_NE \<and> swap_op OP_LT = OP_GT
   \<and> swap_op OP_GT = OP_LT \<and> swap_op OP_LE = OP_GE \<and> swap_op OP_GE = OP_LE
   \<and> fst (make_one_rel db_none True True
        \<lparr>tables = [''a'', ''b'', ''c''],
         conds = [col_cond ''a'' ''k'' OP_EQ ''b'' ''k'', col_cond ''c'' ''k'' OP_EQ ''a'' ''k'']\<rparr>)
      = Inr (JoinPlan T_NestLoop (ScanPlan T_SeqScan ''c'' [] [])
               (JoinPlan T_NestLoop (ScanPlan T_SeqScan ''a'' [] []) (ScanPlan T_SeqScan ''b'' [] [])
                  [col_cond ''a'' ''k'' OP_EQ ''b'' ''k''])
               [col_cond ''c'' ''k'' OP_EQ ''a'' ''k''])"
  (is "?L \<and> ?R \<and> ?K \<and> ?N \<and> ?I \<and> ?S")
proof -
  have L: ?L
  proof
    assume a: "k < length scans \<and> list_all is_scan scans
      \<and> plan_tab (scans ! k) = tab_name (lhs_col cond)
      \<and> (\<forall>j<k. plan_tab (scans ! j) \<noteq> tab_name (lhs_col cond))
      \<and> tab_name (lhs_col cond) \<notin> set joined \<and> tab_name (rhs_col cond) \<in> set joined"
    then have "pop_scan db scantbl (lhs_col cond) joined scans
         = Inr (popped_scan db (lhs_col cond) (scans ! k), scantbl[k := 1],
                joined @ [tab_name (lhs_col cond)])"
      unfolding pop_scan_def
      using pop_scan_from_exact[of scans k "lhs_col cond" db 0 scantbl joined] by simp
    moreover from a have "is_scan (scans ! k)" by (simp add: list_all_length)
    then have "popped_scan db (lhs_col cond) (scans ! k) \<noteq> nullptr"
      using popped_scan_keeps[of "scans ! k" db "lhs_col cond"] by auto
    ultimately show "join_next db scans cond (tree, scantbl, joined)
          = Inr (JoinPlan T_NestLoop (popped_scan db (lhs_col cond) (scans ! k)) tree [cond],
                 scantbl[k := 1], joined @ [tab_name (lhs_col cond)])"
      using a by (simp add: join_next_def)
  qed
  have R: ?R
  proof
    assume a: "k < length scans \<and> list_all is_scan scans
      \<and> plan_tab (scans ! k) = tab_name (rhs_col cond)
      \<and> (\<forall>j<k. plan_tab (scans ! j) \<noteq> tab_name (rhs_col cond))
      \<and> tab_name (lhs_col cond) \<in> set joined \<and> tab_name (rhs_col cond) \<notin> set joined"
    then have "pop_scan db scantbl (rhs_col cond) joined scans
         = Inr (popped_scan db (rhs_col cond) (scans ! k), scantbl[k := 1],
                joined @ [tab_name (rhs_col cond)])"
      unfolding pop_scan_def
      using pop_scan_from_exact[of scans k "rhs_col cond" db 0 scantbl joined] by simp
    moreover from a have "is_scan (scans ! k)" by (simp add: list_all_length)
    then have "popped_scan db (rhs_col cond) (scans ! k) \<noteq> nullptr"
      using popped_scan_keeps[of "scans ! k" db "rhs_col cond"] by auto
    ultimately show "join_next db scans cond (tree, scantbl, joined)
          = Inr (JoinPlan T_NestLoop (popped_scan db (rhs_col cond) (scans ! k)) tree
                   [cond\<lparr>lhs_col := rhs_col cond, rhs_col := lhs_col cond,
                         op := swap_op (op cond)\<rparr>],
                 scantbl[k := 1], joined @ [tab_name (rhs_col cond)])"
      using a by (simp add: join_next_def swap_cond_def)
  qed
  have K: ?K using popped_scan_keeps[of p db col] popped_scan_tab[of p col db] by blast
  have N: ?N using popped_scan_no_index[of db p col] by blast
  have I: ?I using popped_scan_index[of db col p] by blast
  have S: ?S
    by (simp add: make_one_rel_def pop_conds_def pop_test_def get_index_cols_def db_none_def
        col_cond_def pop_scan_def first_join_def join_next_def swap_cond_def)
  from L R K N I S show ?thesis by blast
qed

text \<open>
  Instances, over the catalog with the index on \<^verbatim>\<open>c(k)\<close>: the running tree joins \<^verbatim>\<open>a\<close> and \<^verbatim>\<open>b\<close> and the
  scan of \<^verbatim>\<open>c\<close> carries the filter \<^verbatim>\<open>c.v = 1\<close>.  For the condition \<^verbatim>\<open>a.k < c.k\<close> the new join carries
  \<^verbatim>\<open>c.k > a.k\<close>, and for \<^verbatim>\<open>c.k = a.k\<close> it carries the condition as it is; in both the left input is
  an index scan of \<^verbatim>\<open>c\<close> over \<^verbatim>\<open>(k)\<close> that keeps the filter.  The scan of \<^verbatim>\<open>a\<close>, a table without an
  index on \<^verbatim>\<open>k\<close>, is popped as it is.
\<close>

theorem join_next_one_side_new_witness:
  "join_next db_c_k scans_abc (col_cond ''a'' ''k'' OP_LT ''c'' ''k'')
     (tree_ab, [1, 1, - 1], [[], [], [], ''a'', ''b''])
   = Inr (JoinPlan T_NestLoop
            (ScanPlan T_IndexScan ''c'' [val_cond ''c'' ''v'' OP_EQ (IntValue 1)] [''k''])
            tree_ab [col_cond ''c'' ''k'' OP_GT ''a'' ''k''],
          [1, 1, 1], [[], [], [], ''a'', ''b'', ''c''])
   \<and> join_next db_c_k scans_abc (col_cond ''c'' ''k'' OP_EQ ''a'' ''k'')
     (tree_ab, [1, 1, - 1], [[], [], [], ''a'', ''b''])
   = Inr (JoinPlan T_NestLoop
            (ScanPlan T_IndexScan ''c'' [val_cond ''c'' ''v'' OP_EQ (IntValue 1)] [''k''])
            tree_ab [col_cond ''c'' ''k'' OP_EQ ''a'' ''k''],
          [1, 1, 1], [[], [], [], ''a'', ''b'', ''c''])
   \<and> is_scan (scans_abc ! 2)
   \<and> plan_fed (popped_scan db_c_k \<lparr>tab_name = ''c'', col_name = ''k''\<rparr> (scans_abc ! 2))
       = [val_cond ''c'' ''v'' OP_EQ (IntValue 1)]
   \<and> plan_tab (popped_scan db_c_k \<lparr>tab_name = ''c'', col_name = ''k''\<rparr> (scans_abc ! 2)) = ''c''
   \<and> popped_scan db_c_k \<lparr>tab_name = ''c'', col_name = ''k''\<rparr> (scans_abc ! 2) \<noteq> scans_abc ! 2
   \<and> popped_scan db_c_k \<lparr>tab_name = ''c'', col_name = ''k''\<rparr> (scans_abc ! 2)
       = ScanPlan T_IndexScan ''c'' [val_cond ''c'' ''v'' OP_EQ (IntValue 1)] [''k'']
   \<and> indexes (db_c_k (plan_tab (ScanPlan T_SeqScan ''c'' [] []))) \<noteq> []
   \<and> popped_scan db_c_k \<lparr>tab_name = ''c'', col_name = ''v''\<rparr> (ScanPlan T_SeqScan ''c'' [] [])
       = ScanPlan T_SeqScan ''c'' [] []"
proof -
  let ?lt = "col_cond ''a'' ''k'' OP_LT ''c'' ''k''"
  let ?eq = "col_cond ''c'' ''k'' OP_EQ ''a'' ''k''"
  let ?ck = "\<lparr>tab_name = ''c'', col_name = ''k''\<rparr>"
  let ?cv = "\<lparr>tab_name = ''c'', col_name = ''v''\<rparr>"
  let ?joined = "[[], [], [], ''a'', ''b'']"
  have p: "popped_scan db_c_k ?ck (scans_abc ! 2)
      = ScanPlan T_IndexScan ''c'' [val_cond ''c'' ''v'' OP_EQ (IntValue 1)] [''k'']"
    by (simp add: popped_scan_def scans_abc_def db_c_k_def int_col_def)
  have sc: "is_scan (scans_abc ! 2)" "plan_tab (scans_abc ! 2) = tab_name ?ck"
    by (simp_all add: scans_abc_def)
  have hr: "2 < length scans_abc \<and> list_all is_scan scans_abc
      \<and> plan_tab (scans_abc ! 2) = tab_name (rhs_col ?lt)
      \<and> (\<forall>j<2. plan_tab (scans_abc ! j) \<noteq> tab_name (rhs_col ?lt))
      \<and> tab_name (lhs_col ?lt) \<in> set ?joined \<and> tab_name (rhs_col ?lt) \<notin> set ?joined"
    by (simp add: scans_abc_def col_cond_def less_Suc_eq numeral_2_eq_2)
  have hl: "2 < length scans_abc \<and> list_all is_scan scans_abc
      \<and> plan_tab (scans_abc ! 2) = tab_name (lhs_col ?eq)
      \<and> (\<forall>j<2. plan_tab (scans_abc ! j) \<noteq> tab_name (lhs_col ?eq))
      \<and> tab_name (lhs_col ?eq) \<notin> set ?joined \<and> tab_name (rhs_col ?eq) \<in> set ?joined"
    by (simp add: scans_abc_def col_cond_def less_Suc_eq numeral_2_eq_2)
  have hn: "\<forall>I\<in>set (indexes (db_c_k (plan_tab (ScanPlan T_SeqScan ''c'' [] [])))).
          takeWhile (\<lambda>idx_col. col_name ?cv = name idx_col) (cols I) = []"
    by (simp add: db_c_k_def int_col_def)
  have ne: "indexes (db_c_k (plan_tab (ScanPlan T_SeqScan ''c'' [] []))) \<noteq> []"
    by (simp add: db_c_k_def)
  from join_next_one_side_new [where k = 2 and scans = scans_abc and cond = ?lt
      and joined = ?joined and db = db_c_k and tree = tree_ab
      and scantbl = "[1, 1, - 1]" and p = "scans_abc ! 2" and col = ?ck] hr sc
  have r: "join_next db_c_k scans_abc ?lt (tree_ab, [1, 1, - 1], ?joined)
          = Inr (JoinPlan T_NestLoop (popped_scan db_c_k (rhs_col ?lt) (scans_abc ! 2)) tree_ab
                   [?lt\<lparr>lhs_col := rhs_col ?lt, rhs_col := lhs_col ?lt,
                         op := swap_op (op ?lt)\<rparr>],
                 [1, 1, - 1][2 := 1], ?joined @ [tab_name (rhs_col ?lt)])"
    and k: "is_scan (popped_scan db_c_k ?ck (scans_abc ! 2))
         \<and> plan_fed (popped_scan db_c_k ?ck (scans_abc ! 2)) = plan_fed (scans_abc ! 2)
         \<and> plan_tab (popped_scan db_c_k ?ck (scans_abc ! 2)) = tab_name ?ck"
    by blast+
  from join_next_one_side_new [where k = 2 and scans = scans_abc and cond = ?eq
      and joined = ?joined and db = db_c_k and tree = tree_ab
      and scantbl = "[1, 1, - 1]" and p = "ScanPlan T_SeqScan ''c'' [] []" and col = ?cv] hl hn
  have l: "join_next db_c_k scans_abc ?eq (tree_ab, [1, 1, - 1], ?joined)
          = Inr (JoinPlan T_NestLoop (popped_scan db_c_k (lhs_col ?eq) (scans_abc ! 2)) tree_ab [?eq],
                 [1, 1, - 1][2 := 1], ?joined @ [tab_name (lhs_col ?eq)])"
    and n: "popped_scan db_c_k ?cv (ScanPlan T_SeqScan ''c'' [] []) = ScanPlan T_SeqScan ''c'' [] []"
    by blast+
  have "rhs_col ?lt = ?ck" "lhs_col ?eq = ?ck" by (simp_all add: col_cond_def)
  with r l p have r': "join_next db_c_k scans_abc ?lt (tree_ab, [1, 1, - 1], ?joined)
      = Inr (JoinPlan T_NestLoop
            (ScanPlan T_IndexScan ''c'' [val_cond ''c'' ''v'' OP_EQ (IntValue 1)] [''k''])
            tree_ab [col_cond ''c'' ''k'' OP_GT ''a'' ''k''],
          [1, 1, 1], [[], [], [], ''a'', ''b'', ''c''])"
    and l': "join_next db_c_k scans_abc ?eq (tree_ab, [1, 1, - 1], ?joined)
      = Inr (JoinPlan T_NestLoop
            (ScanPlan T_IndexScan ''c'' [val_cond ''c'' ''v'' OP_EQ (IntValue 1)] [''k''])
            tree_ab [col_cond ''c'' ''k'' OP_EQ ''a'' ''k''],
          [1, 1, 1], [[], [], [], ''a'', ''b'', ''c''])"
    by (simp_all add: col_cond_def)
  from k have f: "plan_fed (popped_scan db_c_k ?ck (scans_abc ! 2))
       = [val_cond ''c'' ''v'' OP_EQ (IntValue 1)]"
    and t: "plan_tab (popped_scan db_c_k ?ck (scans_abc ! 2)) = ''c''"
    by (simp_all add: scans_abc_def)
  have d: "popped_scan db_c_k ?ck (scans_abc ! 2) \<noteq> scans_abc ! 2"
    unfolding p by (simp add: scans_abc_def)
  from r' l' sc(1) f t d p ne n show ?thesis by blast
qed

lemma takeWhile_never: "takeWhile (\<lambda>_. False) xs = []"
  by (cases xs) simp_all

lemma get_index_cols_no_conds: "get_index_cols db t [] = (False, [])"
proof -
  have "best_index (\<lambda>idx_col. False) (indexes (db t)) 0 IndexMeta_default = None"
    by (simp add: best_index_None mlen_def takeWhile_never)
  then show ?thesis by (simp add: get_index_cols_def)
qed

text \<open>
  C2 (amended).  For the tables \<^verbatim>\<open>r, s, u\<close> with the conditions \<^verbatim>\<open>r.x = s.x AND s.y = u.y\<close> and both
  knobs true, whatever the catalog, the plan is \<^verbatim>\<open>Join(u, Join(r, s, r.x = s.x), u.y = s.y)\<close> with
  nested-loop joins: the scan of the newly joined table \<^verbatim>\<open>u\<close> is the left child of the root,
  the join of \<^verbatim>\<open>r\<close> and \<^verbatim>\<open>s\<close> is its right child, and the second condition is carried with its
  sides swapped.  Without indexes the three scans are sequential.
\<close>

theorem three_way_join_shape:
  "(\<exists>tag_u ic_u tag_r ic_r tag_s ic_s.
      fst (make_one_rel db True True q_rsu)
        = Inr (JoinPlan T_NestLoop (ScanPlan tag_u ''u'' [] ic_u)
                 (JoinPlan T_NestLoop (ScanPlan tag_r ''r'' [] ic_r) (ScanPlan tag_s ''s'' [] ic_s)
                    [col_cond ''r'' ''x'' OP_EQ ''s'' ''x''])
                 [col_cond ''u'' ''y'' OP_EQ ''s'' ''y'']))
   \<and> fst (make_one_rel db_none True True q_rsu)
        = Inr (JoinPlan T_NestLoop (ScanPlan T_SeqScan ''u'' [] [])
                 (JoinPlan T_NestLoop (ScanPlan T_SeqScan ''r'' [] []) (ScanPlan T_SeqScan ''s'' [] [])
                    [col_cond ''r'' ''x'' OP_EQ ''s'' ''x''])
                 [col_cond ''u'' ''y'' OP_EQ ''s'' ''y''])"
  (is "?G \<and> ?N")
proof
  let ?scans = "[ScanPlan T_SeqScan ''r'' [] [], ScanPlan T_SeqScan ''s'' [] [],
                 ScanPlan T_SeqScan ''u'' [] []]"
  let ?c1 = "col_cond ''r'' ''x'' OP_EQ ''s'' ''x''"
  let ?c2 = "col_cond ''s'' ''y'' OP_EQ ''u'' ''y''"
  let ?j0 = "[[], [], []] :: string list"
  have ts: "table_scans db [''r'', ''s'', ''u''] [?c1, ?c2] = (?scans, [?c1, ?c2])"
    by (simp add: pop_conds_filter pop_test_def col_cond_def get_index_cols_no_conds)
  have sc: "list_all is_scan ?scans" by simp
  obtain tag_r ic_r where r:
    "pop_scan db [- 1, - 1, - 1] (lhs_col ?c1) ?j0 ?scans
       = Inr (ScanPlan tag_r ''r'' [] ic_r, [1, - 1, - 1], ?j0 @ [''r''])"
    using pop_scan_from_Some[OF sc, of 0 "lhs_col ?c1" db 0 "[- 1, - 1, - 1]" ?j0]
    by (auto simp: pop_scan_def col_cond_def)
  obtain tag_s ic_s where s:
    "pop_scan db [1, - 1, - 1] (rhs_col ?c1) (?j0 @ [''r'']) ?scans
       = Inr (ScanPlan tag_s ''s'' [] ic_s, [1, 1, - 1], ?j0 @ [''r'', ''s''])"
    using pop_scan_from_Some[OF sc, of 1 "rhs_col ?c1" db 0 "[1, - 1, - 1]" "?j0 @ [''r'']"]
    by (auto simp: pop_scan_def col_cond_def)
  obtain tag_u ic_u where u:
    "pop_scan db [1, 1, - 1] (rhs_col ?c2) (?j0 @ [''r'', ''s'']) ?scans
       = Inr (ScanPlan tag_u ''u'' [] ic_u, [1, 1, 1], ?j0 @ [''r'', ''s'', ''u''])"
    using pop_scan_from_Some[OF sc, of 2 "rhs_col ?c2" db 0 "[1, 1, - 1]" "?j0 @ [''r'', ''s'']"]
    by (auto simp: pop_scan_def col_cond_def nth_Cons' less_Suc_eq numeral_2_eq_2)
  have jn: "join_next db ?scans ?c2
      (JoinPlan T_NestLoop (ScanPlan tag_r ''r'' [] ic_r) (ScanPlan tag_s ''s'' [] ic_s) [?c1],
       [1, 1, - 1], ?j0 @ [''r'', ''s''])
     = Inr (JoinPlan T_NestLoop (ScanPlan tag_u ''u'' [] ic_u)
              (JoinPlan T_NestLoop (ScanPlan tag_r ''r'' [] ic_r) (ScanPlan tag_s ''s'' [] ic_s) [?c1])
              [col_cond ''u'' ''y'' OP_EQ ''s'' ''y''],
            [1, 1, 1], ?j0 @ [''r'', ''s'', ''u''])"
    unfolding join_next_def using u
    by (simp add: col_cond_def swap_cond_def)
  have "fst (make_one_rel db True True q_rsu)
        = Inr (JoinPlan T_NestLoop (ScanPlan tag_u ''u'' [] ic_u)
                 (JoinPlan T_NestLoop (ScanPlan tag_r ''r'' [] ic_r) (ScanPlan tag_s ''s'' [] ic_s)
                    [?c1])
                 [col_cond ''u'' ''y'' OP_EQ ''s'' ''y''])"
    unfolding make_one_rel_def q_rsu_def using ts r s jn
    by (simp add: first_join_def)
  then show ?G by blast
  show ?N
    by (simp add: q_rsu_def make_one_rel_def pop_conds_def pop_test_def get_index_cols_def
        db_none_def col_cond_def pop_scan_def first_join_def join_next_def swap_cond_def)
qed

text \<open>An instance: the catalog with an index on \<^verbatim>\<open>(a, b)\<close>, none of which is a join column.\<close>

theorem three_way_join_shape_witness:
  "\<exists>tag_u ic_u tag_r ic_r tag_s ic_s.
      fst (make_one_rel db_t_ab True True q_rsu)
        = Inr (JoinPlan T_NestLoop (ScanPlan tag_u ''u'' [] ic_u)
                 (JoinPlan T_NestLoop (ScanPlan tag_r ''r'' [] ic_r) (ScanPlan tag_s ''s'' [] ic_s)
                    [col_cond ''r'' ''x'' OP_EQ ''s'' ''x''])
                 [col_cond ''u'' ''y'' OP_EQ ''s'' ''y''])"
  using three_way_join_shape [of db_t_ab] by (rule conjunct1)

text \<open>
  C2 as stated fails: the plan is \<^verbatim>\<open>Join(u, Join(r, s, r.x = s.x), u.y = s.y)\<close>, whose right child
  is the join of \<^verbatim>\<open>r\<close> and \<^verbatim>\<open>s\<close> and no scan; it is not the left-deep
  \<^verbatim>\<open>Join(Join(r, s, r.x = s.x), u, s.y = u.y)\<close>.
\<close>

theorem three_way_join_left_deep_counterexample:
  "fst (make_one_rel db_none True True q_rsu) = Inr plan_u_rs
   \<and> fst (make_one_rel db_none True True q_rsu) \<noteq> Inr plan_rs_u"
  by (simp add: q_rsu_def plan_u_rs_def plan_rs_u_def make_one_rel_def pop_conds_def
        pop_test_def get_index_cols_def db_none_def col_cond_def pop_scan_def first_join_def
        join_next_def swap_cond_def)

lemma table_scans_props:
  "table_scans db ts C = (scans, rest) \<Longrightarrow>
     list_all is_scan scans \<and> list_all scan_tag_ok scans \<and> map plan_tab scans = ts
     \<and> rest = filter (\<lambda>c. \<not> (\<exists>t\<in>set ts. pop_test t c)) C"
proof (induction ts arbitrary: C scans rest)
  case Nil
  then show ?case by simp
next
  case (Cons t ts)
  obtain scans' rest' where r: "table_scans db ts (filter (\<lambda>c. \<not> pop_test t c) C) = (scans', rest')"
    by (cases "table_scans db ts (filter (\<lambda>c. \<not> pop_test t c) C)")
  from Cons.IH[OF r] Cons.prems r show ?case
    by (auto simp: pop_conds_filter split: prod.splits if_splits cong: filter_cong)
qed

lemma table_scans_rest:
  "snd (table_scans db ts C) = join_conditions ts C"
proof -
  obtain scans rest where r: "table_scans db ts C = (scans, rest)"
    by (cases "table_scans db ts C")
  have "(\<lambda>c. \<not> (\<exists>t\<in>set ts. pop_test t c))
        = (\<lambda>c. \<not> (\<exists>t\<in>set ts. (tab_name (lhs_col c) = t \<and> is_rhs_val c)
                              \<or> tab_name (lhs_col c) = tab_name (rhs_col c)))"
    by (auto simp: pop_test_def fun_eq_iff)
  with table_scans_props[OF r] r show ?thesis by (simp add: join_conditions_def)
qed

lemma push_conds_join_tags: "join_tags (snd (push_conds c p)) = join_tags p"
  by (induction c p rule: push_conds.induct) (auto split: prod.splits)

lemma pop_scan_from_result:
  "pop_scan_from db col i plans scantbl joined = Inr (p, scantbl', joined') \<Longrightarrow>
     p = nullptr \<or> (\<exists>tag fed ic. p = ScanPlan tag (tab_name col) fed ic \<and>
        (list_all scan_tag_ok plans \<longrightarrow> tag = T_SeqScan \<or> tag = T_IndexScan))"
proof (induction plans arbitrary: i)
  case Nil
  then show ?case by simp
next
  case (Cons q plans)
  then show ?case
    by (cases q) (auto simp: Let_def split: if_splits option.splits)
qed

lemma pop_scan_result:
  "pop_scan db scantbl col joined plans = Inr (p, scantbl', joined') \<Longrightarrow>
     p = nullptr \<or> (\<exists>tag fed ic. p = ScanPlan tag (tab_name col) fed ic \<and>
        (list_all scan_tag_ok plans \<longrightarrow> tag = T_SeqScan \<or> tag = T_IndexScan))"
  unfolding pop_scan_def by (rule pop_scan_from_result)

lemma pop_scan_join_tags:
  "pop_scan db scantbl col joined plans = Inr (p, scantbl', joined') \<Longrightarrow> join_tags p = []"
  by (drule pop_scan_result) auto

lemma pop_scan_from_total:
  "list_all is_scan plans \<Longrightarrow> \<exists>r. pop_scan_from db col i plans scantbl joined = Inr r"
proof (induction plans arbitrary: i)
  case Nil
  then show ?case by simp
next
  case (Cons q plans)
  then show ?case
    by (cases q) (auto simp: Let_def split: option.splits)
qed

lemma join_next_join_tags:
  assumes "join_next db scans cond (tree, scantbl, joined) = Inr (tree', scantbl', joined')"
  shows "\<exists>n. join_tags tree' = replicate n T_NestLoop @ join_tags tree"
proof -
  from assms obtain l s1 j1 r s2 j2 where
    l: "(if tab_name (lhs_col cond) \<notin> set joined
         then pop_scan db scantbl (lhs_col cond) joined scans
         else Inr (nullptr, scantbl, joined)) = Inr (l, s1, j1)"
    and r: "(if tab_name (rhs_col cond) \<notin> set j1
         then pop_scan db s1 (rhs_col cond) j1 scans
         else Inr (nullptr, s1, j1)) = Inr (r, s2, j2)"
    unfolding join_next_def by (auto split: sum.splits)
  have tl: "join_tags l = []" using l pop_scan_join_tags by (auto split: if_splits)
  have tr: "join_tags r = []" using r pop_scan_join_tags by (auto split: if_splits)
  from assms l r have "tree' = JoinPlan T_NestLoop (JoinPlan T_NestLoop l r [cond]) tree []
      \<or> tree' = JoinPlan T_NestLoop (if tab_name (rhs_col cond) \<notin> set j1 then r else l) tree
                   [if tab_name (rhs_col cond) \<notin> set j1 then swap_cond cond else cond]
      \<or> tree' = snd (push_conds cond tree)"
    unfolding join_next_def by (simp add: Let_def split: if_splits)
  then show ?thesis
  proof (elim disjE)
    assume "tree' = JoinPlan T_NestLoop (JoinPlan T_NestLoop l r [cond]) tree []"
    with tl tr have "join_tags tree' = replicate 2 T_NestLoop @ join_tags tree"
      by (simp add: numeral_2_eq_2)
    then show ?thesis by blast
  next
    assume "tree' = JoinPlan T_NestLoop (if tab_name (rhs_col cond) \<notin> set j1 then r else l) tree
                   [if tab_name (rhs_col cond) \<notin> set j1 then swap_cond cond else cond]"
    with tl tr have "join_tags tree' = replicate 1 T_NestLoop @ join_tags tree" by simp
    then show ?thesis by blast
  next
    assume "tree' = snd (push_conds cond tree)"
    then have "join_tags tree' = replicate 0 T_NestLoop @ join_tags tree"
      by (simp add: push_conds_join_tags)
    then show ?thesis by blast
  qed
qed

lemma join_conds_join_tags:
  "join_conds db scans cs (tree, scantbl, joined) = Inr (tree', scantbl', joined') \<Longrightarrow>
     \<exists>n. join_tags tree' = replicate n T_NestLoop @ join_tags tree"
proof (induction cs arbitrary: tree scantbl joined)
  case Nil
  then have "join_tags tree' = replicate 0 T_NestLoop @ join_tags tree" by simp
  then show ?case by blast
next
  case (Cons c cs)
  from Cons.prems obtain t1 s1 j1 where
    1: "join_next db scans c (tree, scantbl, joined) = Inr (t1, s1, j1)"
    and 2: "join_conds db scans cs (t1, s1, j1) = Inr (tree', scantbl', joined')"
    by (auto split: sum.splits)
  from join_next_join_tags[OF 1] obtain n where n: "join_tags t1 = replicate n T_NestLoop @ join_tags tree"
    by blast
  from Cons.IH[OF 2] obtain m where "join_tags tree' = replicate m T_NestLoop @ join_tags t1"
    by blast
  with n have "join_tags tree' = replicate (m + n) T_NestLoop @ join_tags tree"
    by (simp add: replicate_add)
  then show ?case by blast
qed

lemma join_rest_join_tags:
  "list_all is_scan scans \<Longrightarrow>
     \<exists>n. join_tags (join_rest scantbl scans tree) = replicate n T_NestLoop @ join_tags tree"
proof (induction scantbl scans tree rule: join_rest.induct)
  case (1 s scantbl p scans tree)
  from "1.prems" have p: "join_tags p = []" by (cases p) auto
  from "1.prems" have "list_all is_scan scans" by simp
  from "1.IH"[OF this] obtain n where
    n: "join_tags (join_rest scantbl scans
          (if s = - 1 then JoinPlan T_NestLoop tree p [] else tree))
        = replicate n T_NestLoop @ join_tags (if s = - 1 then JoinPlan T_NestLoop tree p [] else tree)"
    by blast
  show ?case
  proof (cases "s = - 1")
    case True
    with n p have "join_tags (join_rest (s # scantbl) (p # scans) tree)
        = replicate (n + 1) T_NestLoop @ join_tags tree"
      by (simp add: replicate_append_same)
    then show ?thesis by blast
  next
    case False
    with n show ?thesis by auto
  qed
qed (rule exI[of _ 0], simp)+


lemma make_one_rel_single:
  assumes "length (tables q) = 1"
  shows "\<exists>tag fed ic. make_one_rel db nl sm q
           = (Inr (ScanPlan tag (hd (tables q)) fed ic), q\<lparr>conds := join_conditions (tables q) (conds q)\<rparr>)"
proof -
  obtain scans rest where r: "table_scans db (tables q) (conds q) = (scans, rest)"
    by (cases "table_scans db (tables q) (conds q)")
  from table_scans_props[OF r] assms obtain p where p: "scans = [p]" "is_scan p" "plan_tab p = hd (tables q)"
    by (cases scans; cases "tables q") auto
  then obtain tag fed ic where "p = ScanPlan tag (hd (tables q)) fed ic" by (cases p) auto
  with p r assms table_scans_rest[of db "tables q" "conds q"] show ?thesis
    by (simp add: make_one_rel_def)
qed

lemma make_one_rel_no_join_conds:
  assumes "length (tables q) \<noteq> 1" "join_conditions (tables q) (conds q) = []" "tables q \<noteq> []"
  shows "\<exists>p scans. make_one_rel db nl sm q
           = (Inr (join_rest ((replicate (length (tables q)) (- 1))[0 := 1]) (p # scans) p),
              q\<lparr>conds := []\<rparr>)
         \<and> table_scans db (tables q) (conds q) = (p # scans, [])"
proof -
  obtain scans rest where r: "table_scans db (tables q) (conds q) = (scans, rest)"
    by (cases "table_scans db (tables q) (conds q)")
  from table_scans_props[OF r] assms(3) obtain p ps where p: "scans = p # ps"
    by (cases scans) auto
  from r assms(2) table_scans_rest[of db "tables q" "conds q"] have "rest = []" by simp
  with p r assms(1) show ?thesis
    by (simp add: make_one_rel_def)
qed

lemma make_one_rel_join_conds:
  assumes "length (tables q) \<noteq> 1" "table_scans db (tables q) (conds q) = (scans, c # cs)"
  shows "snd (make_one_rel db nl sm q) = q\<lparr>conds := []\<rparr>"
    and "fst (make_one_rel db nl sm q) =
      (case pop_scan db (replicate (length (tables q)) (- 1)) (lhs_col c)
              (replicate (length (tables q)) []) scans of
         Inl e \<Rightarrow> Inl e
       | Inr (left, scantbl1, joined_tables1) \<Rightarrow>
      (case pop_scan db scantbl1 (rhs_col c) joined_tables1 scans of
         Inl e \<Rightarrow> Inl e
       | Inr (right, scantbl2, joined_tables2) \<Rightarrow>
      (case first_join nl sm left right c of
         Inl e \<Rightarrow> Inl e
       | Inr t0 \<Rightarrow>
      (case join_conds db scans cs (t0, scantbl2, joined_tables2) of
         Inl e \<Rightarrow> Inl e
       | Inr (t1, scantbl', joined_tables') \<Rightarrow> Inr (join_rest scantbl' scans t1)))))"
  using assms by (simp_all add: make_one_rel_def Let_def)

lemma first_join_join_tags:
  assumes "first_join nl sm left right c = Inr t" "join_tags left = []" "join_tags right = []"
  shows "join_tags t = [if nl then T_NestLoop else T_SortMerge]"
  using assms
  by (auto simp: first_join_def sorted_input_def split: if_splits sum.splits Plan.splits)

lemma make_one_rel_join_tags:
  assumes "fst (make_one_rel db nl sm q) = Inr p"
  shows "\<exists>n. join_tags p = replicate n T_NestLoop @
           (if \<not> nl \<and> length (tables q) \<noteq> 1 \<and> join_conditions (tables q) (conds q) \<noteq> []
            then [T_SortMerge] else [])"
proof (cases "length (tables q) = 1")
  case True
  from make_one_rel_single[OF True, of db nl sm] assms True
  have "join_tags p = replicate 0 T_NestLoop" by auto
  with True show ?thesis by auto
next
  case multi: False
  obtain scans rest where r: "table_scans db (tables q) (conds q) = (scans, rest)"
    by (cases "table_scans db (tables q) (conds q)")
  note props = table_scans_props[OF r]
  have rest: "rest = join_conditions (tables q) (conds q)"
    using r table_scans_rest[of db "tables q" "conds q"] by simp
  show ?thesis
  proof (cases rest)
    case Nil
    with r multi assms obtain p0 where "p = join_rest ((replicate (length (tables q)) (- 1))[0 := 1]) scans p0"
      "p0 \<in> set scans"
      by (auto simp: make_one_rel_def split: list.splits)
    moreover from this props have "join_tags p0 = []" by (cases p0) (auto simp: list_all_iff)
    ultimately show ?thesis
      using join_rest_join_tags[of scans "(replicate (length (tables q)) (- 1))[0 := 1]" p0]
        props Nil rest by auto
  next
    case (Cons c cs)
    from make_one_rel_join_conds(2)[OF multi r[unfolded Cons], of nl sm] assms
    obtain left s1 j1 right s2 j2 t0 t1 s3 j3 where
      l: "pop_scan db (replicate (length (tables q)) (- 1)) (lhs_col c)
              (replicate (length (tables q)) []) scans = Inr (left, s1, j1)"
      and rr: "pop_scan db s1 (rhs_col c) j1 scans = Inr (right, s2, j2)"
      and fj: "first_join nl sm left right c = Inr t0"
      and jc: "join_conds db scans cs (t0, s2, j2) = Inr (t1, s3, j3)"
      and p: "p = join_rest s3 scans t1"
      by (auto split: sum.splits)
    from first_join_join_tags[OF fj pop_scan_join_tags[OF l] pop_scan_join_tags[OF rr]]
    have t0: "join_tags t0 = [if nl then T_NestLoop else T_SortMerge]" .
    from join_conds_join_tags[OF jc] obtain n where n: "join_tags t1 = replicate n T_NestLoop @ join_tags t0"
      by blast
    from join_rest_join_tags[of scans s3 t1] props p obtain m where
      m: "join_tags p = replicate m T_NestLoop @ join_tags t1" by blast
    show ?thesis
    proof (cases nl)
      case True
      with t0 n m have "join_tags p = replicate (Suc (m + n)) T_NestLoop"
        by (simp add: replicate_add replicate_append_same)
      with True show ?thesis by (intro exI[of _ "Suc (m + n)"]) simp
    next
      case False
      with t0 n m have "join_tags p = replicate (m + n) T_NestLoop @ [T_SortMerge]"
        by (simp add: replicate_add)
      with False multi rest Cons show ?thesis by auto
    qed
  qed
qed

lemma join_next_total:
  assumes "list_all is_scan scans"
  shows "\<exists>r. join_next db scans cond st = Inr r"
proof -
  obtain tree scantbl joined where st: "st = (tree, scantbl, joined)" by (cases st)
  obtain l s1 j1 where
    l: "(if tab_name (lhs_col cond) \<notin> set joined
         then pop_scan db scantbl (lhs_col cond) joined scans
         else Inr (nullptr, scantbl, joined)) = Inr (l, s1, j1)"
    using pop_scan_from_total[OF assms, of db "lhs_col cond" 0 scantbl joined]
    unfolding pop_scan_def by (cases "tab_name (lhs_col cond) \<notin> set joined") auto
  obtain r s2 j2 where
    r: "(if tab_name (rhs_col cond) \<notin> set j1
         then pop_scan db s1 (rhs_col cond) j1 scans
         else Inr (nullptr, s1, j1)) = Inr (r, s2, j2)"
    using pop_scan_from_total[OF assms, of db "rhs_col cond" 0 s1 j1]
    unfolding pop_scan_def by (cases "tab_name (rhs_col cond) \<notin> set j1") auto
  from l r show ?thesis
    by (auto simp: st join_next_def Let_def split: if_splits)
qed

lemma join_conds_total:
  "list_all is_scan scans \<Longrightarrow> \<exists>r. join_conds db scans cs st = Inr r"
proof (induction cs arbitrary: st)
  case Nil
  show ?case by (rule exI[of _ st]) simp
next
  case (Cons c cs)
  from join_next_total[OF Cons.prems, of db c st] obtain st' where
    1: "join_next db scans c st = Inr st'" by blast
  from Cons.IH[OF Cons.prems, of st'] obtain r where "join_conds db scans cs st' = Inr r"
    by blast
  with 1 have "join_conds db scans (c # cs) st = Inr r" by simp
  then show ?case by (rule exI)
qed

lemma make_one_rel_first_join:
  assumes multi: "length (tables q) \<noteq> 1"
    and r: "table_scans db (tables q) (conds q) = (scans, c # cs)"
  shows "\<exists>left s1 j1 right s2 j2.
      pop_scan db (replicate (length (tables q)) (- 1)) (lhs_col c)
        (replicate (length (tables q)) []) scans = Inr (left, s1, j1)
    \<and> pop_scan db s1 (rhs_col c) j1 scans = Inr (right, s2, j2)
    \<and> (\<forall>t0. first_join nl sm left right c = Inr t0 \<longrightarrow>
         (\<exists>p n. fst (make_one_rel db nl sm q) = Inr p
            \<and> join_tags p = replicate n T_NestLoop @ join_tags t0))"
proof -
  have sc: "list_all is_scan scans" using table_scans_props[OF r] by simp
  obtain left s1 j1 where l: "pop_scan db (replicate (length (tables q)) (- 1)) (lhs_col c)
            (replicate (length (tables q)) []) scans = Inr (left, s1, j1)"
    using pop_scan_from_total[OF sc] unfolding pop_scan_def by (metis prod_cases3)
  obtain right s2 j2 where rr: "pop_scan db s1 (rhs_col c) j1 scans = Inr (right, s2, j2)"
    using pop_scan_from_total[OF sc] unfolding pop_scan_def by (metis prod_cases3)
  have "\<exists>p n. fst (make_one_rel db nl sm q) = Inr p
            \<and> join_tags p = replicate n T_NestLoop @ join_tags t0"
    if fj: "first_join nl sm left right c = Inr t0" for t0
  proof -
    obtain t1 s3 j3 where jc: "join_conds db scans cs (t0, s2, j2) = Inr (t1, s3, j3)"
      using join_conds_total[OF sc, of db cs "(t0, s2, j2)"] by (metis prod_cases3)
    have p: "fst (make_one_rel db nl sm q) = Inr (join_rest s3 scans t1)"
      using make_one_rel_join_conds(2)[OF multi r, of nl sm] l rr fj jc by simp
    from join_conds_join_tags[OF jc] obtain n where
      n: "join_tags t1 = replicate n T_NestLoop @ join_tags t0" by blast
    from join_rest_join_tags[OF sc, of s3 t1] obtain m where
      m: "join_tags (join_rest s3 scans t1) = replicate m T_NestLoop @ join_tags t1" by blast
    from n m have "join_tags (join_rest s3 scans t1) = replicate (m + n) T_NestLoop @ join_tags t0"
      by (simp add: replicate_add)
    with p show ?thesis by blast
  qed
  with l rr show ?thesis by blast
qed

lemma make_one_rel_nest_loop_first:
  assumes "length (tables q) \<noteq> 1" "join_conditions (tables q) (conds q) \<noteq> []"
  shows "\<exists>p n. fst (make_one_rel db True sm q) = Inr p
           \<and> join_tags p = replicate n T_NestLoop @ [T_NestLoop]"
proof -
  obtain scans rest where r: "table_scans db (tables q) (conds q) = (scans, rest)"
    by (cases "table_scans db (tables q) (conds q)")
  from assms(2) r table_scans_rest[of db "tables q" "conds q"] obtain c cs where rest: "rest = c # cs"
    by (cases rest) auto
  from make_one_rel_first_join[OF assms(1) r[unfolded rest], of True sm]
  obtain left s1 j1 right s2 j2 where
    l: "pop_scan db (replicate (length (tables q)) (- 1)) (lhs_col c)
        (replicate (length (tables q)) []) scans = Inr (left, s1, j1)"
    and rr: "pop_scan db s1 (rhs_col c) j1 scans = Inr (right, s2, j2)"
    and k: "\<forall>t0. first_join True sm left right c = Inr t0 \<longrightarrow>
         (\<exists>p n. fst (make_one_rel db True sm q) = Inr p
            \<and> join_tags p = replicate n T_NestLoop @ join_tags t0)"
    by blast
  have "first_join True sm left right c = Inr (JoinPlan T_NestLoop left right [c])"
    by (simp add: first_join_def)
  with k pop_scan_join_tags[OF l] pop_scan_join_tags[OF rr] show ?thesis by fastforce
qed

lemma make_one_rel_sort_merge_first:
  assumes "length (tables q) \<noteq> 1" "join_conditions (tables q) (conds q) \<noteq> []"
    and "tab_name (lhs_col (hd (join_conditions (tables q) (conds q)))) \<in> set (tables q)"
    and "tab_name (rhs_col (hd (join_conditions (tables q) (conds q)))) \<in> set (tables q)"
  shows "\<exists>p n. fst (make_one_rel db False True q) = Inr p
           \<and> join_tags p = replicate n T_NestLoop @ [T_SortMerge]"
proof -
  obtain scans rest where r: "table_scans db (tables q) (conds q) = (scans, rest)"
    by (cases "table_scans db (tables q) (conds q)")
  from assms(2) r table_scans_rest[of db "tables q" "conds q"] obtain c cs where rest: "rest = c # cs"
    by (cases rest) auto
  from r rest table_scans_rest[of db "tables q" "conds q"]
  have hd: "hd (join_conditions (tables q) (conds q)) = c" by (metis list.sel(1) snd_conv)
  note props = table_scans_props[OF r]
  from props have sc: "list_all is_scan scans" and ok: "list_all scan_tag_ok scans"
    and tabs: "plan_tab ` set scans = set (tables q)"
    by (simp_all flip: set_map)
  from make_one_rel_first_join[OF assms(1) r[unfolded rest], of False True]
  obtain left s1 j1 right s2 j2 where
    l: "pop_scan db (replicate (length (tables q)) (- 1)) (lhs_col c)
        (replicate (length (tables q)) []) scans = Inr (left, s1, j1)"
    and rr: "pop_scan db s1 (rhs_col c) j1 scans = Inr (right, s2, j2)"
    and k: "\<forall>t0. first_join False True left right c = Inr t0 \<longrightarrow>
         (\<exists>p n. fst (make_one_rel db False True q) = Inr p
            \<and> join_tags p = replicate n T_NestLoop @ join_tags t0)"
    by blast
  from assms(3) hd tabs have "tab_name (lhs_col c) \<in> plan_tab ` set scans" by simp
  from pop_scan_from_found[OF sc this, of db 0 "replicate (length (tables q)) (- 1)"
      "replicate (length (tables q)) []"] l
  have "left \<noteq> nullptr"
    unfolding pop_scan_def by auto
  with pop_scan_result[OF l] ok obtain tag fed ic where
    left: "left = ScanPlan tag (tab_name (lhs_col c)) fed ic" "tag = T_SeqScan \<or> tag = T_IndexScan"
    by blast
  from assms(4) hd tabs have "tab_name (rhs_col c) \<in> plan_tab ` set scans" by simp
  from pop_scan_from_found[OF sc this, of db 0 s1 j1] rr have "right \<noteq> nullptr"
    unfolding pop_scan_def by auto
  with pop_scan_result[OF rr] ok obtain tag' fed' ic' where
    right: "right = ScanPlan tag' (tab_name (rhs_col c)) fed' ic'" "tag' = T_SeqScan \<or> tag' = T_IndexScan"
    by blast
  from left right obtain t0 where t0: "first_join False True left right c = Inr t0"
    by (auto simp: first_join_def sorted_input_def)
  from first_join_join_tags[OF t0 pop_scan_join_tags[OF l] pop_scan_join_tags[OF rr]]
  have "join_tags t0 = [T_SortMerge]" by simp
  with k t0 show ?thesis by fastforce
qed

text \<open>
  C5 (amended).  The knobs choose the operator of one join only, the join built for the
  first join condition.  A query over more than one table that has a join condition is
  planned when \<^verbatim>\<open>enable_nestedloop_join\<close> is true (whatever the other knob), and that join is a
  nested-loop join, as every join of the plan is; when only \<^verbatim>\<open>enable_sortmerge_join\<close> is true and
  both tables of the first join condition are tables of the query, it is planned and that
  join is a sort-merge join; and with both knobs false it signals the configuration error,
  \<^verbatim>\<open>query->conds\<close> having been emptied.  Every other join node, for a later join condition or
  a leftover table, is a nested-loop join whatever the knobs; and a query over one table, or
  without a join condition, is planned under any knobs, also with both false.  (The tags
  are listed root first, so the first join comes last.)
\<close>

theorem join_operator_selection:
  "(\<forall>p. fst (make_one_rel db True sm q) = Inr p \<longrightarrow> (\<exists>n. join_tags p = replicate n T_NestLoop))
   \<and> (\<forall>p. fst (make_one_rel db False True q) = Inr p \<longrightarrow>
         (\<exists>n. join_tags p = replicate n T_NestLoop @
                (if length (tables q) \<noteq> 1 \<and> join_conditions (tables q) (conds q) \<noteq> []
                 then [T_SortMerge] else [])))
   \<and> (length (tables q) \<noteq> 1 \<and> join_conditions (tables q) (conds q) \<noteq> [] \<longrightarrow>
         make_one_rel db False False q
           = (Inl (RMDBError ''No join executor selected!''), q\<lparr>conds := []\<rparr>))
   \<and> ((length (tables q) = 1 \<or> join_conditions (tables q) (conds q) = []) \<and> tables q \<noteq> [] \<longrightarrow>
         (\<exists>p n. fst (make_one_rel db nl sm q) = Inr p \<and> join_tags p = replicate n T_NestLoop))
   \<and> (length (tables q) \<noteq> 1 \<and> join_conditions (tables q) (conds q) \<noteq> [] \<longrightarrow>
         (\<exists>p n. fst (make_one_rel db True sm q) = Inr p
            \<and> join_tags p = replicate n T_NestLoop @ [T_NestLoop]))
   \<and> (length (tables q) \<noteq> 1 \<and> join_conditions (tables q) (conds q) \<noteq> []
        \<and> tab_name (lhs_col (hd (join_conditions (tables q) (conds q)))) \<in> set (tables q)
        \<and> tab_name (rhs_col (hd (join_conditions (tables q) (conds q)))) \<in> set (tables q) \<longrightarrow>
         (\<exists>p n. fst (make_one_rel db False True q) = Inr p
            \<and> join_tags p = replicate n T_NestLoop @ [T_SortMerge]))
   \<and> first_join True sm left right cond = Inr (JoinPlan T_NestLoop left right [cond])
   \<and> first_join False False left right cond = Inl (RMDBError ''No join executor selected!'')"
  (is "?A \<and> ?B \<and> ?C \<and> ?D \<and> ?E \<and> ?F \<and> ?G \<and> ?H")
proof -
  have A: ?A using make_one_rel_join_tags[of db True sm q] by auto
  have B: ?B using make_one_rel_join_tags[of db False True q] by auto
  have C: ?C
  proof
    assume a: "length (tables q) \<noteq> 1 \<and> join_conditions (tables q) (conds q) \<noteq> []"
    obtain scans rest where r: "table_scans db (tables q) (conds q) = (scans, rest)"
      by (cases "table_scans db (tables q) (conds q)")
    from a r table_scans_rest[of db "tables q" "conds q"] obtain c cs where rest: "rest = c # cs"
      by (cases rest) auto
    have sc: "list_all is_scan scans" using table_scans_props[OF r] by simp
    obtain left s1 j1 where l: "pop_scan db (replicate (length (tables q)) (- 1)) (lhs_col c)
              (replicate (length (tables q)) []) scans = Inr (left, s1, j1)"
      using pop_scan_from_total[OF sc] unfolding pop_scan_def by (metis prod_cases3)
    obtain right s2 j2 where rr: "pop_scan db s1 (rhs_col c) j1 scans = Inr (right, s2, j2)"
      using pop_scan_from_total[OF sc] unfolding pop_scan_def by (metis prod_cases3)
    have "fst (make_one_rel db False False q) = Inl (RMDBError ''No join executor selected!'')"
      using make_one_rel_join_conds(2)[OF conjunct1[OF a] r[unfolded rest], of False False] l rr
      by (simp add: first_join_def)
    moreover have "snd (make_one_rel db False False q) = q\<lparr>conds := []\<rparr>"
      using make_one_rel_join_conds(1)[OF conjunct1[OF a] r[unfolded rest]] .
    ultimately show "make_one_rel db False False q
           = (Inl (RMDBError ''No join executor selected!''), q\<lparr>conds := []\<rparr>)"
      by (simp add: prod_eq_iff)
  qed
  have D: ?D
  proof
    assume a: "(length (tables q) = 1 \<or> join_conditions (tables q) (conds q) = []) \<and> tables q \<noteq> []"
    have "\<exists>p. fst (make_one_rel db nl sm q) = Inr p"
    proof (cases "length (tables q) = 1")
      case True
      from make_one_rel_single[OF True, of db nl sm] show ?thesis by auto
    next
      case False
      with a make_one_rel_no_join_conds[OF False, of db nl sm] show ?thesis by auto
    qed
    then obtain p where p: "fst (make_one_rel db nl sm q) = Inr p" by blast
    from make_one_rel_join_tags[OF p] a have "\<exists>n. join_tags p = replicate n T_NestLoop" by auto
    with p show "\<exists>p n. fst (make_one_rel db nl sm q) = Inr p \<and> join_tags p = replicate n T_NestLoop"
      by blast
  qed
  have E: ?E using make_one_rel_nest_loop_first[of q db sm] by blast
  have F: ?F using make_one_rel_sort_merge_first[of q db] by blast
  have G: ?G by (simp add: first_join_def)
  have H: ?H by (simp add: first_join_def)
  from A B C D E F G H show ?thesis by blast
qed

text \<open>
  Instances: the three-table query has two join conditions; with both knobs false it
  signals the error, with only sort-merge enabled it is planned with one sort-merge join
  under a nested-loop join, and with nested-loop enabled it is planned with nested-loop
  joins only.  The two-table query without a condition is planned with both knobs false.
\<close>

theorem join_operator_selection_witness:
  "length (tables q_rsu) \<noteq> 1 \<and> join_conditions (tables q_rsu) (conds q_rsu) \<noteq> []
   \<and> tab_name (lhs_col (hd (join_conditions (tables q_rsu) (conds q_rsu)))) \<in> set (tables q_rsu)
   \<and> tab_name (rhs_col (hd (join_conditions (tables q_rsu) (conds q_rsu)))) \<in> set (tables q_rsu)
   \<and> make_one_rel db_none False False q_rsu
       = (Inl (RMDBError ''No join executor selected!''), q_rsu\<lparr>conds := []\<rparr>)
   \<and> (\<exists>p n. fst (make_one_rel db_none False True q_rsu) = Inr p
         \<and> join_tags p = replicate n T_NestLoop @ [T_SortMerge])
   \<and> (\<exists>p n. fst (make_one_rel db_none True False q_rsu) = Inr p
         \<and> join_tags p = replicate n T_NestLoop @ [T_NestLoop])
   \<and> (\<exists>p n. fst (make_one_rel db_none True True q_rsu) = Inr p
         \<and> join_tags p = replicate n T_NestLoop @ [T_NestLoop])
   \<and> fst (make_one_rel db_none True True q_rsu) = Inr plan_u_rs
   \<and> (\<exists>n. join_tags plan_u_rs = replicate n T_NestLoop)
   \<and> length (tables q_rs_cross) \<noteq> 1 \<and> join_conditions (tables q_rs_cross) (conds q_rs_cross) = []
   \<and> tables q_rs_cross \<noteq> []
   \<and> (\<exists>p n. fst (make_one_rel db_none False False q_rs_cross) = Inr p
         \<and> join_tags p = replicate n T_NestLoop)"
proof -
  have h: "length (tables q_rsu) \<noteq> 1 \<and> join_conditions (tables q_rsu) (conds q_rsu) \<noteq> []
     \<and> tab_name (lhs_col (hd (join_conditions (tables q_rsu) (conds q_rsu)))) \<in> set (tables q_rsu)
     \<and> tab_name (rhs_col (hd (join_conditions (tables q_rsu) (conds q_rsu)))) \<in> set (tables q_rsu)"
    by (simp add: q_rsu_def join_conditions_def col_cond_def)
  have e: "make_one_rel db_none False False q_rsu
       = (Inl (RMDBError ''No join executor selected!''), q_rsu\<lparr>conds := []\<rparr>)"
    using join_operator_selection [where db = db_none and q = q_rsu] h by blast
  have s: "\<exists>p n. fst (make_one_rel db_none False True q_rsu) = Inr p
         \<and> join_tags p = replicate n T_NestLoop @ [T_SortMerge]"
    using join_operator_selection [where db = db_none and q = q_rsu] h by blast
  have n1: "\<exists>p n. fst (make_one_rel db_none True False q_rsu) = Inr p
         \<and> join_tags p = replicate n T_NestLoop @ [T_NestLoop]"
    using join_operator_selection [where db = db_none and q = q_rsu and sm = False] h by blast
  have n2: "\<exists>p n. fst (make_one_rel db_none True True q_rsu) = Inr p
         \<and> join_tags p = replicate n T_NestLoop @ [T_NestLoop]"
    using join_operator_selection [where db = db_none and q = q_rsu and sm = True] h by blast
  have p: "fst (make_one_rel db_none True True q_rsu) = Inr plan_u_rs"
    by (simp add: q_rsu_def plan_u_rs_def make_one_rel_def pop_conds_def pop_test_def
        get_index_cols_def db_none_def col_cond_def pop_scan_def first_join_def join_next_def
        swap_cond_def)
  with join_operator_selection [where db = db_none and q = q_rsu and sm = True]
  have t: "\<exists>n. join_tags plan_u_rs = replicate n T_NestLoop" by blast
  have hc: "length (tables q_rs_cross) \<noteq> 1
      \<and> join_conditions (tables q_rs_cross) (conds q_rs_cross) = [] \<and> tables q_rs_cross \<noteq> []"
    by (simp add: q_rs_cross_def join_conditions_def)
  have c: "\<exists>p n. fst (make_one_rel db_none False False q_rs_cross) = Inr p
         \<and> join_tags p = replicate n T_NestLoop"
    using join_operator_selection [where db = db_none and q = q_rs_cross and nl = False
        and sm = False] hc by blast
  from h e s n1 n2 p t hc c show ?thesis by blast
qed

text \<open>
  C5 as stated fails.  With only \<^verbatim>\<open>enable_sortmerge_join\<close> true the root join of the three-table
  plan is a nested-loop join; with both knobs false the query without a join condition is
  planned, with a nested-loop join, and no error is signalled; and where the error is
  signalled, the conditions of the query have changed.
\<close>

theorem join_operator_every_node_counterexample:
  "fst (make_one_rel db_none False True q_rsu)
     = Inr (JoinPlan T_NestLoop (ScanPlan T_SeqScan ''u'' [] [])
              (JoinPlan T_SortMerge
                 (SortPlan T_Sort (ScanPlan T_SeqScan ''r'' [] [])
                    [\<lparr>tab_name = ''r'', col_name = ''x''\<rparr>] False)
                 (SortPlan T_Sort (ScanPlan T_SeqScan ''s'' [] [])
                    [\<lparr>tab_name = ''s'', col_name = ''x''\<rparr>] False)
                 [col_cond ''r'' ''x'' OP_EQ ''s'' ''x''])
              [col_cond ''u'' ''y'' OP_EQ ''s'' ''y''])
   \<and> fst (make_one_rel db_none False False q_rs_cross)
     = Inr (JoinPlan T_NestLoop (ScanPlan T_SeqScan ''r'' [] []) (ScanPlan T_SeqScan ''s'' [] []) [])
   \<and> conds (snd (make_one_rel db_none False False q_rsu)) \<noteq> conds q_rsu"
  by (simp add: q_rsu_def q_rs_cross_def make_one_rel_def pop_conds_def pop_test_def
        get_index_cols_def db_none_def col_cond_def pop_scan_def first_join_def sorted_input_def
        join_next_def swap_cond_def)

lemma push_conds_sort_merge_child_shape:
  "sort_merge_child_shape (snd (push_conds c p)) col = sort_merge_child_shape p col"
  by (cases p) (auto split: prod.splits)

lemma push_conds_sort_merge_shape:
  "sort_merge_shape p \<Longrightarrow> sort_merge_shape (snd (push_conds c p))"
proof (induction c p rule: push_conds.induct)
  case (2 cond tag left right conds')
  obtain lr l' where l: "push_conds cond left = (lr, l')" by (cases "push_conds cond left")
  obtain rr r' where r: "push_conds cond right = (rr, r')" by (cases "push_conds cond right")
  from l have l': "l' = snd (push_conds cond left)" by simp
  from r have r': "r' = snd (push_conds cond right)" by simp
  from "2.prems" have okl: "sort_merge_shape left" and okr: "sort_merge_shape right" by auto
  have il: "\<And>col. sort_merge_child_shape l' col = sort_merge_child_shape left col"
    unfolding l' by (rule push_conds_sort_merge_child_shape)
  have ir: "\<And>col. sort_merge_child_shape r' col = sort_merge_child_shape right col"
    unfolding r' by (rule push_conds_sort_merge_child_shape)
  have sl: "sort_merge_shape l'" unfolding l' using "2.IH"(1) okl by simp
  show ?case
  proof (cases "lr = 3")
    case True
    with l "2.prems" il sl show ?thesis by (auto split: list.splits)
  next
    case False
    have sr: "sort_merge_shape r'" unfolding r' using "2.IH"(2)[OF l[symmetric] False] okr by simp
    from False l r "2.prems" il ir sl sr show ?thesis
      by (auto split: list.splits)
  qed
qed simp_all

lemma pop_scan_sort_merge_shape:
  "pop_scan db scantbl col joined plans = Inr (p, scantbl', joined') \<Longrightarrow> sort_merge_shape p"
  by (drule pop_scan_result) auto

lemma first_join_sort_merge_shape:
  assumes "first_join nl sm left right c = Inr t"
    and "left = nullptr \<or> (\<exists>tag fed ic. left = ScanPlan tag (tab_name (lhs_col c)) fed ic)"
    and "right = nullptr \<or> (\<exists>tag fed ic. right = ScanPlan tag (tab_name (rhs_col c)) fed ic)"
  shows "sort_merge_shape t"
  using assms
  by (auto simp: first_join_def sorted_input_def split: if_splits sum.splits)

lemma join_next_sort_merge_shape:
  assumes "join_next db scans cond (tree, scantbl, joined) = Inr (tree', scantbl', joined')"
    and "sort_merge_shape tree"
  shows "sort_merge_shape tree'"
proof -
  from assms(1) obtain l s1 j1 r s2 j2 where
    l: "(if tab_name (lhs_col cond) \<notin> set joined
         then pop_scan db scantbl (lhs_col cond) joined scans
         else Inr (nullptr, scantbl, joined)) = Inr (l, s1, j1)"
    and r: "(if tab_name (rhs_col cond) \<notin> set j1
         then pop_scan db s1 (rhs_col cond) j1 scans
         else Inr (nullptr, s1, j1)) = Inr (r, s2, j2)"
    unfolding join_next_def by (auto split: sum.splits)
  have tl: "sort_merge_shape l" using l pop_scan_sort_merge_shape by (auto split: if_splits)
  have tr: "sort_merge_shape r" using r pop_scan_sort_merge_shape by (auto split: if_splits)
  from assms(1) l r have "tree' = JoinPlan T_NestLoop (JoinPlan T_NestLoop l r [cond]) tree []
      \<or> tree' = JoinPlan T_NestLoop (if tab_name (rhs_col cond) \<notin> set j1 then r else l) tree
                   [if tab_name (rhs_col cond) \<notin> set j1 then swap_cond cond else cond]
      \<or> tree' = snd (push_conds cond tree)"
    unfolding join_next_def by (simp add: Let_def split: if_splits)
  with tl tr assms(2) show ?thesis
    by (auto simp: push_conds_sort_merge_shape)
qed

lemma join_conds_sort_merge_shape:
  "join_conds db scans cs (tree, scantbl, joined) = Inr (tree', scantbl', joined') \<Longrightarrow>
     sort_merge_shape tree \<Longrightarrow> sort_merge_shape tree'"
proof (induction cs arbitrary: tree scantbl joined)
  case Nil
  then show ?case by simp
next
  case (Cons c cs)
  from Cons.prems(1) obtain t1 s1 j1 where
    1: "join_next db scans c (tree, scantbl, joined) = Inr (t1, s1, j1)"
    and 2: "join_conds db scans cs (t1, s1, j1) = Inr (tree', scantbl', joined')"
    by (auto split: sum.splits)
  from Cons.IH[OF 2 join_next_sort_merge_shape[OF 1 Cons.prems(2)]] show ?case .
qed

lemma join_rest_sort_merge_shape:
  "list_all is_scan scans \<Longrightarrow> sort_merge_shape tree \<Longrightarrow> sort_merge_shape (join_rest scantbl scans tree)"
proof (induction scantbl scans tree rule: join_rest.induct)
  case (1 s scantbl p scans tree)
  from "1.prems" have "sort_merge_shape p" by (cases p) auto
  with "1.prems" "1.IH" show ?case by simp
qed simp_all

text \<open>
  Every sort-merge join of a plan that \<^verbatim>\<open>make_one_rel\<close> returns has as each child either a sort
  node on that side's join column over a sequential scan, or an index scan of that side's
  table, over whatever index.
\<close>

lemma sort_merge_children_shape:
  assumes res: "fst (make_one_rel db nl sm q) = Inr p"
  shows "sort_merge_shape p"
proof -
  obtain scans rest where r: "table_scans db (tables q) (conds q) = (scans, rest)"
    by (cases "table_scans db (tables q) (conds q)")
  note props = table_scans_props[OF r]
  show ?thesis
  proof (cases "length (tables q) = 1")
    case True
    from make_one_rel_single[OF True, of db nl sm] res show ?thesis by auto
  next
    case multi: False
    show ?thesis
    proof (cases rest)
      case Nil
      with r multi res obtain p0 where
        p: "p = join_rest ((replicate (length (tables q)) (- 1))[0 := 1]) scans p0"
        and "p0 \<in> set scans"
        by (auto simp: make_one_rel_def split: list.splits)
      with props have "sort_merge_shape p0" by (cases p0) (auto simp: list_all_iff)
      with props show ?thesis unfolding p by (intro join_rest_sort_merge_shape) simp_all
    next
      case (Cons c cs)
      from make_one_rel_join_conds(2)[OF multi r[unfolded Cons], of nl sm] res
      obtain left s1 j1 right s2 j2 t0 t1 s3 j3 where
        l: "pop_scan db (replicate (length (tables q)) (- 1)) (lhs_col c)
                (replicate (length (tables q)) []) scans = Inr (left, s1, j1)"
        and rr: "pop_scan db s1 (rhs_col c) j1 scans = Inr (right, s2, j2)"
        and fj: "first_join nl sm left right c = Inr t0"
        and jc: "join_conds db scans cs (t0, s2, j2) = Inr (t1, s3, j3)"
        and p: "p = join_rest s3 scans t1"
        by (auto split: sum.splits)
      have "sort_merge_shape t0"
        using first_join_sort_merge_shape[OF fj] pop_scan_result[OF l] pop_scan_result[OF rr]
        by blast
      from join_conds_sort_merge_shape[OF jc this] props show ?thesis
        unfolding p by (intro join_rest_sort_merge_shape) simp_all
    qed
  qed
qed

text \<open>
  C6.  The planner does not keep the precondition of the sort-merge join.  The two-table
  equi-join \<^verbatim>\<open>r.x = s.x\<close>, planned with only the sort-merge knob true and no index, is the
  sort-merge join of the two sequential scans, each under a sort on its join column.  But
  \<^verbatim>\<open>sorted_input\<close> returns an index scan as it is, whatever the columns of its index and whatever
  the join column; so with an index on \<^verbatim>\<open>r(a)\<close> and the conditions \<^verbatim>\<open>r.a = 1 AND r.x = s.x\<close>, where
  the scan of \<^verbatim>\<open>r\<close> is an index scan chosen for the filter, the left input of the sort-merge
  join on \<^verbatim>\<open>r.x\<close> is the scan of the index \<^verbatim>\<open>(a)\<close>, under no sort, and \<^verbatim>\<open>x\<close> is not a column of that
  index; without the index the same query sorts \<^verbatim>\<open>r\<close> on \<^verbatim>\<open>r.x\<close>.
\<close>

theorem sort_merge_index_input_unsorted:
  "fst (make_one_rel db_none False True q_rs)
     = Inr (JoinPlan T_SortMerge
              (SortPlan T_Sort (ScanPlan T_SeqScan ''r'' [] [])
                 [\<lparr>tab_name = ''r'', col_name = ''x''\<rparr>] False)
              (SortPlan T_Sort (ScanPlan T_SeqScan ''s'' [] [])
                 [\<lparr>tab_name = ''s'', col_name = ''x''\<rparr>] False)
              [col_cond ''r'' ''x'' OP_EQ ''s'' ''x''])
   \<and> sorted_input (ScanPlan T_IndexScan tab fed_conds index_col_names) col
     = Inr (ScanPlan T_IndexScan tab fed_conds index_col_names)
   \<and> fst (make_one_rel db_r_a False True q_rs_filter)
     = Inr (JoinPlan T_SortMerge
              (ScanPlan T_IndexScan ''r'' [val_cond ''r'' ''a'' OP_EQ (IntValue 1)] [''a''])
              (SortPlan T_Sort (ScanPlan T_SeqScan ''s'' [] [])
                 [\<lparr>tab_name = ''s'', col_name = ''x''\<rparr>] False)
              [col_cond ''r'' ''x'' OP_EQ ''s'' ''x''])
   \<and> col_name (lhs_col (col_cond ''r'' ''x'' OP_EQ ''s'' ''x'')) \<notin> set (snd (get_index_cols db_r_a ''r''
         [val_cond ''r'' ''a'' OP_EQ (IntValue 1)]))
   \<and> fst (make_one_rel db_none False True q_rs_filter)
     = Inr (JoinPlan T_SortMerge
              (SortPlan T_Sort (ScanPlan T_SeqScan ''r'' [val_cond ''r'' ''a'' OP_EQ (IntValue 1)] [])
                 [\<lparr>tab_name = ''r'', col_name = ''x''\<rparr>] False)
              (SortPlan T_Sort (ScanPlan T_SeqScan ''s'' [] [])
                 [\<lparr>tab_name = ''s'', col_name = ''x''\<rparr>] False)
              [col_cond ''r'' ''x'' OP_EQ ''s'' ''x''])"
  (is "?S \<and> ?I \<and> ?F \<and> ?X \<and> ?N")
proof -
  have S: ?S
    by (simp add: q_rs_def make_one_rel_def pop_conds_def pop_test_def get_index_cols_def
        db_none_def col_cond_def pop_scan_def first_join_def sorted_input_def)
  have I: ?I by (simp add: sorted_input_def)
  have F: ?F
    by (simp add: q_rs_filter_def make_one_rel_def pop_conds_def pop_test_def get_index_cols_def
        db_r_a_def col_cond_def val_cond_def no_col_def int_col_def pop_scan_def first_join_def
        sorted_input_def)
  have X: ?X
    by (simp add: get_index_cols_def db_r_a_def col_cond_def val_cond_def no_col_def int_col_def)
  have N: ?N
    by (simp add: q_rs_filter_def make_one_rel_def pop_conds_def pop_test_def get_index_cols_def
        db_none_def col_cond_def val_cond_def no_col_def pop_scan_def first_join_def
        sorted_input_def)
  from S I F X N show ?thesis by blast
qed

section \<open>Conservation of the conditions\<close>

lemma swap_op_involution: "swap_op (swap_op o') = o'"
  by (cases o') simp_all

lemma swap_cond_involution: "swap_cond (swap_cond c) = c"
  by (simp add: swap_cond_def swap_op_involution)

lemma mirror_swap: "mirror (swap_cond c) = mirror c"
  by (auto simp: mirror_def swap_cond_involution)

lemma push_conds_leaf_scans: "leaf_scans (snd (push_conds c p)) = leaf_scans p"
  by (induction c p rule: push_conds.induct) (auto split: prod.splits)

lemma push_conds_join_tree: "join_tree (snd (push_conds c p)) = join_tree p"
  by (induction c p rule: push_conds.induct) (auto split: prod.splits)

lemma push_conds_complete:
  assumes "join_tree p" "distinct (map fst (leaf_scans p))"
    "tab_name (lhs_col c) \<noteq> tab_name (rhs_col c)"
  shows "fst (push_conds c p) = push_code c (fst ` set (leaf_scans p))
    \<and> image_mset mirror (mset (join_node_conds (snd (push_conds c p))))
        = image_mset mirror (mset (join_node_conds p))
          + (if push_code c (fst ` set (leaf_scans p)) = 3 then {#mirror c#} else {#})"
  using assms
proof (induction c p rule: push_conds.induct)
  case (1 cond tag tab fed_conds index_col_names)
  then show ?case by (auto simp: push_code_def)
next
  case (2 cond tag left right conds')
  let ?Tl = "fst ` set (leaf_scans left)" and ?Tr = "fst ` set (leaf_scans right)"
  obtain lr l' where l: "push_conds cond left = (lr, l')" by (cases "push_conds cond left")
  obtain rr r' where r: "push_conds cond right = (rr, r')" by (cases "push_conds cond right")
  from "2.prems" have jl: "join_tree left" and jr: "join_tree right"
    and dl: "distinct (map fst (leaf_scans left))" and dr: "distinct (map fst (leaf_scans right))"
    and disj: "?Tl \<inter> ?Tr = {}"
    by auto
  note ne = "2.prems"(3)
  from "2.IH"(1)[OF jl dl ne] l have lr: "lr = push_code cond ?Tl"
    and lc: "image_mset mirror (mset (join_node_conds l'))
        = image_mset mirror (mset (join_node_conds left))
          + (if push_code cond ?Tl = 3 then {#mirror cond#} else {#})"
    by simp_all
  have T: "fst ` set (leaf_scans (JoinPlan tag left right conds')) = ?Tl \<union> ?Tr" by auto
  show ?case
  proof (cases "lr = 3")
    case True
    with lr have "tab_name (lhs_col cond) \<in> ?Tl \<and> tab_name (rhs_col cond) \<in> ?Tl"
      by (auto simp: push_code_def split: if_splits)
    then have "push_code cond (?Tl \<union> ?Tr) = 3" by (simp add: push_code_def)
    with True l lr lc show ?thesis unfolding T by simp
  next
    case False
    from "2.IH"(2)[OF l[symmetric] False jr dr ne] r have rr: "rr = push_code cond ?Tr"
      and rc: "image_mset mirror (mset (join_node_conds r'))
        = image_mset mirror (mset (join_node_conds right))
          + (if push_code cond ?Tr = 3 then {#mirror cond#} else {#})"
      by simp_all
    from False lr have l3: "push_code cond ?Tl \<noteq> 3" by simp
    show ?thesis
    proof (cases "rr = 3")
      case True
      with rr have "tab_name (lhs_col cond) \<in> ?Tr \<and> tab_name (rhs_col cond) \<in> ?Tr"
        by (auto simp: push_code_def split: if_splits)
      then have "push_code cond (?Tl \<union> ?Tr) = 3" by (simp add: push_code_def)
      with True False l r lr rr lc rc l3 show ?thesis unfolding T by simp
    next
      case r3: False
      with rr have r3': "push_code cond ?Tr \<noteq> 3" by simp
      show ?thesis
      proof (cases "lr = 0 \<or> rr = 0")
        case True
        with lr rr l3 r3' disj have "push_code cond (?Tl \<union> ?Tr) = lr + rr"
          by (auto simp: push_code_def split: if_splits)
        moreover from this l3 r3' lr rr True have "push_code cond (?Tl \<union> ?Tr) \<noteq> 3"
          by auto
        ultimately show ?thesis using True False r3 l r lc rc l3 r3' unfolding T
          by simp
      next
        case nz: False
        with lr rr l3 r3' disj have both: "push_code cond (?Tl \<union> ?Tr) = 3"
          by (auto simp: push_code_def split: if_splits)
        from nz False r3 l r lc rc l3 r3' both show ?thesis unfolding T
          by (simp add: mirror_swap)
      qed
    qed
  qed
qed simp_all


lemma scantbl_mark:
  assumes "distinct ts" "k < length ts"
  shows "(map (\<lambda>t. if t \<in> T then 1 else - 1 :: int) ts)[k := 1]
           = map (\<lambda>t. if t \<in> insert (ts ! k) T then 1 else - 1) ts"
proof (rule nth_equalityI)
  show "length ((map (\<lambda>t. if t \<in> T then 1 else - 1 :: int) ts)[k := 1])
          = length (map (\<lambda>t. if t \<in> insert (ts ! k) T then 1 else - 1 :: int) ts)"
    by simp
next
  fix i assume "i < length ((map (\<lambda>t. if t \<in> T then 1 else - 1 :: int) ts)[k := 1])"
  then have i: "i < length ts" by simp
  with assms have "ts ! i = ts ! k \<longleftrightarrow> i = k" by (simp add: nth_eq_iff_index_eq)
  with i assms show "(map (\<lambda>t. if t \<in> T then 1 else - 1 :: int) ts)[k := 1] ! i
          = map (\<lambda>t. if t \<in> insert (ts ! k) T then 1 else - 1) ts ! i"
    by (auto simp: nth_list_update)
qed

lemma pop_scan_table:
  assumes "list_all is_scan scans" "map plan_tab scans = ts" "distinct ts"
    and "tab_name col \<in> set ts"
  shows "\<exists>tag k ic. k < length ts \<and> ts ! k = tab_name col
     \<and> pop_scan db scantbl col joined scans
         = Inr (ScanPlan tag (tab_name col) (plan_fed (scans ! k)) ic,
                scantbl[k := 1], joined @ [tab_name col])"
proof -
  from assms(4) obtain k where k: "k < length ts" "ts ! k = tab_name col"
    by (auto simp: in_set_conv_nth)
  from assms(2) have len: "length scans = length ts" by auto
  have nth: "\<And>j. j < length ts \<Longrightarrow> plan_tab (scans ! j) = ts ! j"
    using assms(2) len by (metis nth_map)
  have "\<forall>j<k. plan_tab (scans ! j) \<noteq> tab_name col"
  proof (intro allI impI)
    fix j assume "j < k"
    with k(1) assms(3) have "ts ! j \<noteq> ts ! k" by (simp add: nth_eq_iff_index_eq)
    with \<open>j < k\<close> k nth show "plan_tab (scans ! j) \<noteq> tab_name col" by simp
  qed
  with pop_scan_from_Some[OF assms(1), of k col db 0 scantbl joined] k len nth
  show ?thesis unfolding pop_scan_def by auto
qed

lemma covered_pop:
  assumes wf: "list_all is_scan scans" "map plan_tab scans = ts" "distinct ts"
    and cov: "covered ts scans L scantbl"
    and t: "tab_name col \<in> set ts" "tab_name col \<notin> fst ` set L"
  shows "\<exists>tag fed ic scantbl'.
      pop_scan db scantbl col joined scans
        = Inr (ScanPlan tag (tab_name col) fed ic, scantbl', joined @ [tab_name col])
      \<and> (\<forall>L'. set L' = insert (tab_name col, fed) (set L) \<and> distinct (map fst L')
              \<longrightarrow> covered ts scans L' scantbl')"
proof -
  from pop_scan_table[OF wf t(1), of db scantbl joined] obtain tag k ic where
    k: "k < length ts" "ts ! k = tab_name col"
    and ps: "pop_scan db scantbl col joined scans
         = Inr (ScanPlan tag (tab_name col) (plan_fed (scans ! k)) ic,
                scantbl[k := 1], joined @ [tab_name col])"
    by blast
  from wf(2) have len: "length scans = length ts" by auto
  with k(1) have "scans ! k \<in> set scans" by simp
  moreover from wf(2) len k have "plan_tab (scans ! k) = tab_name col" by (metis nth_map)
  ultimately have sk: "scans ! k \<in> set scans" "plan_tab (scans ! k) = tab_name col" .
  have "\<forall>L'. set L' = insert (tab_name col, plan_fed (scans ! k)) (set L) \<and> distinct (map fst L')
              \<longrightarrow> covered ts scans L' (scantbl[k := 1])"
  proof (intro allI impI)
    fix L' assume L': "set L' = insert (tab_name col, plan_fed (scans ! k)) (set L) \<and> distinct (map fst L')"
    have "(tab_name col, plan_fed (scans ! k)) \<in> scan_pair ` set scans"
      using sk by (force simp: scan_pair_def)
    with cov L' have sub: "set L' \<subseteq> scan_pair ` set scans" by (auto simp: covered_def)
    from L' have T: "fst ` set L' = insert (ts ! k) (fst ` set L)" using k by auto
    from cov have "scantbl = map (\<lambda>t. if t \<in> fst ` set L then 1 else - 1) ts"
      by (simp add: covered_def)
    then have "scantbl[k := 1] = map (\<lambda>t. if t \<in> fst ` set L' then 1 else - 1) ts"
      using scantbl_mark[OF wf(3) k(1), of "fst ` set L"] T by simp
    with sub L' show "covered ts scans L' (scantbl[k := 1])" by (simp add: covered_def)
  qed
  with ps show ?thesis by blast
qed


lemma join_next_covered:
  assumes wf: "list_all is_scan scans" "map plan_tab scans = ts" "distinct ts" "[] \<notin> set ts"
    and jt: "join_tree tree"
    and cov: "covered ts scans (leaf_scans tree) scantbl"
    and jn: "set joined = insert [] (fst ` set (leaf_scans tree))"
    and c: "tab_name (lhs_col c) \<in> set ts" "tab_name (rhs_col c) \<in> set ts"
      "tab_name (lhs_col c) \<noteq> tab_name (rhs_col c)"
  shows "\<exists>tree' scantbl' joined'.
      join_next db scans c (tree, scantbl, joined) = Inr (tree', scantbl', joined')
      \<and> join_tree tree' \<and> covered ts scans (leaf_scans tree') scantbl'
      \<and> set joined' = insert [] (fst ` set (leaf_scans tree'))
      \<and> image_mset mirror (mset (join_node_conds tree'))
          = image_mset mirror (mset (join_node_conds tree)) + {#mirror c#}"
proof -
  let ?L = "leaf_scans tree"
  let ?T = "fst ` set ?L"
  let ?l = "tab_name (lhs_col c)" and ?r = "tab_name (rhs_col c)"
  from c wf(4) have ne: "?l \<noteq> []" "?r \<noteq> []" by auto
  with jn have inl: "?l \<in> set joined \<longleftrightarrow> ?l \<in> ?T" and inr: "?r \<in> set joined \<longleftrightarrow> ?r \<in> ?T"
    by auto
  from cov have dL: "distinct (map fst ?L)" by (simp add: covered_def)
  show ?thesis
  proof (cases "?l \<in> ?T")
    case lin: True
    show ?thesis
    proof (cases "?r \<in> ?T")
      case rin: True
      from lin rin have code: "push_code c ?T = 3" by (simp add: push_code_def)
      from push_conds_complete[OF jt dL c(3)] code
      have pc: "image_mset mirror (mset (join_node_conds (snd (push_conds c tree))))
          = image_mset mirror (mset (join_node_conds tree)) + {#mirror c#}" by simp
      have "join_next db scans c (tree, scantbl, joined)
              = Inr (snd (push_conds c tree), scantbl, joined)"
        using lin rin inl inr by (simp add: join_next_def)
      with pc jt cov jn show ?thesis
        by (simp add: push_conds_leaf_scans push_conds_join_tree)
    next
      case rout: False
      from covered_pop[OF wf(1-3) cov c(2) rout, of db joined] obtain tag fed ic s' where
        ps: "pop_scan db scantbl (rhs_col c) joined scans
               = Inr (ScanPlan tag ?r fed ic, s', joined @ [?r])"
        and cv: "\<forall>L'. set L' = insert (?r, fed) (set ?L) \<and> distinct (map fst L')
              \<longrightarrow> covered ts scans L' s'"
        by blast
      let ?tree' = "JoinPlan T_NestLoop (ScanPlan tag ?r fed ic) tree [swap_cond c]"
      have jn': "join_next db scans c (tree, scantbl, joined) = Inr (?tree', s', joined @ [?r])"
        using lin rout inl inr ps by (simp add: join_next_def)
      have "covered ts scans (leaf_scans ?tree') s'"
        using cv rout dL by simp
      moreover have "set (joined @ [?r]) = insert [] (fst ` set (leaf_scans ?tree'))"
        using jn by auto
      moreover have "image_mset mirror (mset (join_node_conds ?tree'))
          = image_mset mirror (mset (join_node_conds tree)) + {#mirror c#}"
        by (simp add: mirror_swap)
      ultimately show ?thesis using jn' jt by auto
    qed
  next
    case lout: False
    from covered_pop[OF wf(1-3) cov c(1) lout, of db joined] obtain tag fed ic s1 where
      ps: "pop_scan db scantbl (lhs_col c) joined scans
             = Inr (ScanPlan tag ?l fed ic, s1, joined @ [?l])"
      and cv: "\<forall>L'. set L' = insert (?l, fed) (set ?L) \<and> distinct (map fst L')
            \<longrightarrow> covered ts scans L' s1"
      by blast
    let ?L1 = "(?l, fed) # ?L"
    have cov1: "covered ts scans ?L1 s1" using cv lout dL by simp
    show ?thesis
    proof (cases "?r \<in> ?T")
      case rin: True
      let ?tree' = "JoinPlan T_NestLoop (ScanPlan tag ?l fed ic) tree [c]"
      have jn': "join_next db scans c (tree, scantbl, joined) = Inr (?tree', s1, joined @ [?l])"
        using lout rin inl inr ps by (simp add: join_next_def)
      have "set (joined @ [?l]) = insert [] (fst ` set (leaf_scans ?tree'))"
        using jn by auto
      with jn' jt cov1 show ?thesis by auto
    next
      case rout: False
      with c(3) have rout1: "?r \<notin> fst ` set ?L1" by auto
      from covered_pop[OF wf(1-3) cov1 c(2) rout1, of db "joined @ [?l]"]
      obtain tag2 fed2 ic2 s2 where
        ps2: "pop_scan db s1 (rhs_col c) (joined @ [?l]) scans
               = Inr (ScanPlan tag2 ?r fed2 ic2, s2, (joined @ [?l]) @ [?r])"
        and cv2: "\<forall>L'. set L' = insert (?r, fed2) (set ?L1) \<and> distinct (map fst L')
              \<longrightarrow> covered ts scans L' s2"
        by blast
      let ?tree' = "JoinPlan T_NestLoop
          (JoinPlan T_NestLoop (ScanPlan tag ?l fed ic) (ScanPlan tag2 ?r fed2 ic2) [c]) tree []"
      have rj: "?r \<notin> set (joined @ [?l])" using rout inr c(3) by auto
      have jn': "join_next db scans c (tree, scantbl, joined)
                   = Inr (?tree', s2, (joined @ [?l]) @ [?r])"
        using lout inl ps rj ps2 by (simp add: join_next_def)
      have "set (leaf_scans ?tree') = insert (?r, fed2) (set ?L1)
            \<and> distinct (map fst (leaf_scans ?tree'))"
        using rout lout dL c(3) by auto
      with cv2 have "covered ts scans (leaf_scans ?tree') s2" by blast
      moreover have "set ((joined @ [?l]) @ [?r]) = insert [] (fst ` set (leaf_scans ?tree'))"
        using jn by auto
      ultimately show ?thesis using jn' jt by auto
    qed
  qed
qed


lemma join_conds_covered:
  assumes wf: "list_all is_scan scans" "map plan_tab scans = ts" "distinct ts" "[] \<notin> set ts"
    and jt: "join_tree tree"
    and cov: "covered ts scans (leaf_scans tree) scantbl"
    and jn: "set joined = insert [] (fst ` set (leaf_scans tree))"
    and cs: "\<forall>c\<in>set cs. tab_name (lhs_col c) \<in> set ts \<and> tab_name (rhs_col c) \<in> set ts
               \<and> tab_name (lhs_col c) \<noteq> tab_name (rhs_col c)"
  shows "\<exists>tree' scantbl' joined'.
      join_conds db scans cs (tree, scantbl, joined) = Inr (tree', scantbl', joined')
      \<and> join_tree tree' \<and> covered ts scans (leaf_scans tree') scantbl'
      \<and> image_mset mirror (mset (join_node_conds tree'))
          = image_mset mirror (mset (join_node_conds tree)) + image_mset mirror (mset cs)"
  using jt cov jn cs
proof (induction cs arbitrary: tree scantbl joined)
  case Nil
  then show ?case by simp
next
  case (Cons c cs)
  from Cons.prems(4) have c: "tab_name (lhs_col c) \<in> set ts" "tab_name (rhs_col c) \<in> set ts"
      "tab_name (lhs_col c) \<noteq> tab_name (rhs_col c)"
    and rest: "\<forall>c\<in>set cs. tab_name (lhs_col c) \<in> set ts \<and> tab_name (rhs_col c) \<in> set ts
               \<and> tab_name (lhs_col c) \<noteq> tab_name (rhs_col c)"
    by auto
  from join_next_covered[OF wf Cons.prems(1-3) c, of db] obtain t1 s1 j1 where
    step: "join_next db scans c (tree, scantbl, joined) = Inr (t1, s1, j1)"
    and inv: "join_tree t1" "covered ts scans (leaf_scans t1) s1"
      "set j1 = insert [] (fst ` set (leaf_scans t1))"
    and m1: "image_mset mirror (mset (join_node_conds t1))
          = image_mset mirror (mset (join_node_conds tree)) + {#mirror c#}"
    by blast
  from Cons.IH[OF inv rest] obtain tree' scantbl' joined' where
    r: "join_conds db scans cs (t1, s1, j1) = Inr (tree', scantbl', joined')"
    and inv': "join_tree tree'" "covered ts scans (leaf_scans tree') scantbl'"
    and m2: "image_mset mirror (mset (join_node_conds tree'))
          = image_mset mirror (mset (join_node_conds t1)) + image_mset mirror (mset cs)"
    by blast
  from step r have "join_conds db scans (c # cs) (tree, scantbl, joined)
      = Inr (tree', scantbl', joined')" by simp
  with inv' m1 m2 show ?case by simp
qed

lemma join_rest_leaves:
  "list_all is_scan sc \<Longrightarrow> join_tree tree \<Longrightarrow>
     leaf_scans (join_rest sb sc tree)
       = leaf_scans tree @ map scan_pair (map snd (filter (\<lambda>(s, p). s = - 1) (zip sb sc)))
     \<and> join_node_conds (join_rest sb sc tree) = join_node_conds tree"
proof (induction sb sc tree rule: join_rest.induct)
  case (1 s scantbl p scans tree)
  from "1.prems" obtain tag tab fed ic where p: "p = ScanPlan tag tab fed ic"
    by (cases p) auto
  from "1.prems" have "list_all is_scan scans" by simp
  moreover from "1.prems" p have
    "join_tree (if s = - 1 then JoinPlan T_NestLoop tree p [] else tree)" by simp
  ultimately show ?case using "1.IH" p by (cases "s = - 1") (simp_all add: scan_pair_def)
qed simp_all

lemma filter_zip_map:
  "map snd (filter (\<lambda>(s, p). P s) (zip (map g xs) xs)) = filter (\<lambda>x. P (g x)) xs"
  by (induction xs) simp_all

lemma covered_leaves:
  assumes wf: "map plan_tab scans = ts" "distinct ts"
    and cov: "covered ts scans L scantbl"
  shows "mset L = mset (map scan_pair (filter (\<lambda>p. plan_tab p \<in> fst ` set L) scans))"
proof -
  let ?T = "fst ` set L"
  let ?R = "map scan_pair (filter (\<lambda>p. plan_tab p \<in> ?T) scans)"
  from cov have dL: "distinct (map fst L)" and sub: "set L \<subseteq> scan_pair ` set scans"
    by (simp_all add: covered_def)
  from wf have dt: "distinct (map plan_tab scans)" by simp
  then have inj: "inj_on plan_tab (set scans)" by (simp add: distinct_map)
  from dL have d1: "distinct L" by (simp add: distinct_map)
  have fp: "fst \<circ> scan_pair = plan_tab" by (simp add: fun_eq_iff scan_pair_def)
  from dt have "distinct (map fst ?R)" by (simp add: fp distinct_map_filter)
  then have d2: "distinct ?R" by (simp only: distinct_map)
  have "set L = set ?R"
  proof (intro set_eqI iffI)
    fix x assume x: "x \<in> set L"
    with sub obtain p where p: "p \<in> set scans" "x = scan_pair p" by auto
    with x have "plan_tab p \<in> ?T" by (force simp: scan_pair_def)
    with p show "x \<in> set ?R" by auto
  next
    fix x assume "x \<in> set ?R"
    then obtain p where p: "p \<in> set scans" "plan_tab p \<in> ?T" "x = scan_pair p" by auto
    then obtain y where y: "y \<in> set L" "fst y = plan_tab p" by auto
    with sub obtain p' where p': "p' \<in> set scans" "y = scan_pair p'" by auto
    with y have "plan_tab p' = plan_tab p" by (simp add: scan_pair_def)
    with inj p p' have "p' = p" by (auto dest: inj_onD)
    with p p' y show "x \<in> set L" by simp
  qed
  with set_eq_iff_mset_eq_distinct[OF d1 d2] show ?thesis by blast
qed

lemma join_rest_all_scans:
  assumes wf: "list_all is_scan scans" "map plan_tab scans = ts" "distinct ts"
    and jt: "join_tree tree"
    and cov: "covered ts scans (leaf_scans tree) scantbl"
  shows "mset (leaf_scans (join_rest scantbl scans tree)) = mset (map scan_pair scans)"
    and "join_node_conds (join_rest scantbl scans tree) = join_node_conds tree"
proof -
  let ?T = "fst ` set (leaf_scans tree)"
  let ?g = "\<lambda>p. if plan_tab p \<in> ?T then 1 else - 1 :: int"
  from cov wf(2) have sb: "scantbl = map ?g scans"
    by (auto simp: covered_def)
  have "map snd (filter (\<lambda>(s, p). s = - 1) (zip scantbl scans))
          = filter (\<lambda>p. ?g p = - 1) scans"
    unfolding sb by (rule filter_zip_map)
  also have "\<dots> = filter (\<lambda>p. plan_tab p \<notin> ?T) scans"
    by (rule filter_cong) auto
  finally have rest: "map snd (filter (\<lambda>(s, p). s = - 1) (zip scantbl scans))
          = filter (\<lambda>p. plan_tab p \<notin> ?T) scans" .
  from join_rest_leaves[OF wf(1) jt, of scantbl] rest
  have ls: "leaf_scans (join_rest scantbl scans tree)
      = leaf_scans tree @ map scan_pair (filter (\<lambda>p. plan_tab p \<notin> ?T) scans)"
    and jc: "join_node_conds (join_rest scantbl scans tree) = join_node_conds tree"
    by simp_all
  have "mset (leaf_scans (join_rest scantbl scans tree))
      = mset (map scan_pair (filter (\<lambda>p. plan_tab p \<in> ?T) scans))
        + mset (map scan_pair (filter (\<lambda>p. plan_tab p \<notin> ?T) scans))"
    unfolding ls using covered_leaves[OF wf(2,3) cov] by simp
  also have "\<dots> = mset (map scan_pair scans)"
    by (simp add: image_mset_union[symmetric] del: image_mset_union)
  finally show "mset (leaf_scans (join_rest scantbl scans tree)) = mset (map scan_pair scans)" .
  from jc show "join_node_conds (join_rest scantbl scans tree) = join_node_conds tree" .
qed

lemma scan_conds_mset:
  "mset (leaf_scans p) = mset (map scan_pair scans) \<Longrightarrow>
     mset (scan_conds p) = mset (concat (map plan_fed scans))"
proof -
  assume a: "mset (leaf_scans p) = mset (map scan_pair scans)"
  have "mset (scan_conds p) = sum_mset (image_mset (mset \<circ> snd) (mset (leaf_scans p)))"
    by (simp add: scan_conds_def mset_concat sum_mset_sum_list[symmetric] comp_def)
  also have "\<dots> = sum_mset (image_mset (mset \<circ> snd) (mset (map scan_pair scans)))"
    by (simp only: a)
  also have "\<dots> = mset (concat (map plan_fed scans))"
    by (simp add: mset_concat sum_mset_sum_list[symmetric] multiset.map_comp comp_def
          scan_pair_def)
  finally show ?thesis .
qed

lemma table_scans_fed:
  "table_scans db ts C = (scans, rest) \<Longrightarrow>
     mset (concat (map plan_fed scans)) + mset rest = mset C"
proof (induction ts arbitrary: C scans rest)
  case Nil
  then show ?case by simp
next
  case (Cons t ts)
  obtain scans' rest' where r: "table_scans db ts (filter (\<lambda>c. \<not> pop_test t c) C) = (scans', rest')"
    by (cases "table_scans db ts (filter (\<lambda>c. \<not> pop_test t c) C)")
  from Cons.IH[OF r] have "mset (concat (map plan_fed scans')) + mset rest'
      = mset (filter (\<lambda>c. \<not> pop_test t c) C)" .
  moreover have "mset (filter (pop_test t) C) + mset (filter (\<lambda>c. \<not> pop_test t c) C) = mset C"
    by (simp add: multiset_partition[symmetric])
  ultimately have total: "mset (filter (pop_test t) C) + mset (concat (map plan_fed scans'))
      + mset rest' = mset C"
    by (simp add: add.assoc)
  from Cons.prems r obtain s0 where "scans = s0 # scans'" "plan_fed s0 = filter (pop_test t) C"
    "rest = rest'"
    by (auto simp: pop_conds_filter split: prod.splits if_splits)
  with total show ?case by simp
qed


lemma covered_initial:
  "covered ts scans [] (replicate (length ts) (- 1))"
  by (simp add: covered_def map_replicate_const)

lemma join_conditions_between:
  assumes "\<forall>c\<in>set C. tab_name (lhs_col c) \<in> set ts
             \<and> (\<not> is_rhs_val c \<longrightarrow> tab_name (rhs_col c) \<in> set ts)"
    and "c \<in> set (join_conditions ts C)"
  shows "tab_name (lhs_col c) \<in> set ts \<and> tab_name (rhs_col c) \<in> set ts
           \<and> tab_name (lhs_col c) \<noteq> tab_name (rhs_col c)"
proof -
  from assms(2) have cC: "c \<in> set C"
    and np: "\<not> (\<exists>t\<in>set ts. (tab_name (lhs_col c) = t \<and> is_rhs_val c)
                              \<or> tab_name (lhs_col c) = tab_name (rhs_col c))"
    by (simp_all add: join_conditions_def)
  from assms(1) cC have l: "tab_name (lhs_col c) \<in> set ts" by blast
  with np have "\<not> is_rhs_val c" "tab_name (lhs_col c) \<noteq> tab_name (rhs_col c)" by blast+
  with assms(1) cC l show ?thesis by blast
qed

text \<open>
  C4 (amended).  For every \<^verbatim>\<open>SELECT\<close> over distinct tables with non-empty names whose conjuncts
  refer to those tables only, planned with \<^verbatim>\<open>enable_nestedloop_join\<close> true, \<^verbatim>\<open>make_one_rel\<close> returns a
  plan in which the fed conditions of the scan leaves are exactly the conjuncts that
  \<^verbatim>\<open>pop_conds\<close> takes (a column of one of the tables against a literal, or two columns of one
  table), and the conditions of the join nodes are exactly the remaining conjuncts, each
  once, as written or with its sides swapped and its operator inverted.  So the conditions
  of the plan are the conjuncts of the query, none lost and none duplicated, once a
  condition and its mirror image are identified.
\<close>

theorem predicate_conservation:
  assumes dist: "distinct (tables q)" and nonempty: "[] \<notin> set (tables q)" "tables q \<noteq> []"
    and refs: "\<forall>c\<in>set (conds q). tab_name (lhs_col c) \<in> set (tables q)
                 \<and> (\<not> is_rhs_val c \<longrightarrow> tab_name (rhs_col c) \<in> set (tables q))"
  shows "\<exists>p. fst (make_one_rel db True sm q) = Inr p
      \<and> mset (scan_conds p) + mset (join_conditions (tables q) (conds q)) = mset (conds q)
      \<and> image_mset mirror (mset (join_node_conds p))
          = image_mset mirror (mset (join_conditions (tables q) (conds q)))
      \<and> image_mset mirror (mset (scan_conds p) + mset (join_node_conds p))
          = image_mset mirror (mset (conds q))"
proof -
  let ?ts = "tables q" and ?C = "conds q"
  let ?J = "join_conditions ?ts ?C"
  obtain scans rest where r: "table_scans db ?ts ?C = (scans, rest)"
    by (cases "table_scans db ?ts ?C")
  from table_scans_props[OF r] have sc: "list_all is_scan scans" and tabs: "map plan_tab scans = ?ts"
    by simp_all
  from r table_scans_rest[of db ?ts ?C] have rest: "rest = ?J" by simp
  from table_scans_fed[OF r] rest have fed: "mset (concat (map plan_fed scans)) + mset ?J = mset ?C"
    by simp
  note between = join_conditions_between[OF refs]
  have main: "\<exists>p. fst (make_one_rel db True sm q) = Inr p
      \<and> mset (leaf_scans p) = mset (map scan_pair scans)
      \<and> image_mset mirror (mset (join_node_conds p)) = image_mset mirror (mset ?J)"
  proof (cases "length ?ts = 1")
    case True
    then obtain t where t: "?ts = [t]" by (cases ?ts) auto
    have "?J = []"
    proof (rule ccontr)
      assume "?J \<noteq> []"
      then obtain c where "c \<in> set ?J" by (cases ?J) auto
      from between[OF this] t show False by auto
    qed
    moreover from tabs t obtain p0 where p0: "scans = [p0]" by (cases scans) auto
    moreover from p0 sc obtain tag tab fed ic where "p0 = ScanPlan tag tab fed ic"
      by (cases p0) auto
    ultimately show ?thesis using r True
      by (simp add: make_one_rel_def scan_pair_def)
  next
    case multi: False
    from nonempty(2) tabs obtain p0 scans' where p0: "scans = p0 # scans'" by (cases scans) auto
    show ?thesis
    proof (cases ?J)
      case Nil
      with r rest p0 multi have res: "fst (make_one_rel db True sm q)
          = Inr (join_rest ((replicate (length ?ts) (- 1))[0 := 1]) scans p0)"
        by (simp add: make_one_rel_def)
      from p0 sc obtain tag tab fed ic where p0s: "p0 = ScanPlan tag tab fed ic"
        by (cases p0) auto
      from p0 p0s tabs have "?ts = tab # map plan_tab scans'" by simp
      then have t0: "?ts ! 0 = tab" "0 < length ?ts" by simp_all
      have "(replicate (length ?ts) (- 1 :: int))[0 := 1]
          = map (\<lambda>t. if t \<in> insert (?ts ! 0) {} then 1 else - 1) ?ts"
        using scantbl_mark[OF dist t0(2), of "{}"] by (simp add: map_replicate_const)
      with p0s p0 t0 have cov: "covered ?ts scans (leaf_scans p0) ((replicate (length ?ts) (- 1))[0 := 1])"
        by (simp add: covered_def scan_pair_def)
      from p0s have jt: "join_tree p0" by simp
      from join_rest_all_scans[OF sc tabs dist jt cov] res p0s Nil show ?thesis by simp
    next
      case (Cons c cs)
      from between[of c] Cons have c: "tab_name (lhs_col c) \<in> set ?ts"
        "tab_name (rhs_col c) \<in> set ?ts" "tab_name (lhs_col c) \<noteq> tab_name (rhs_col c)"
        by simp_all
      from between Cons have cs: "\<forall>c\<in>set cs. tab_name (lhs_col c) \<in> set ?ts
          \<and> tab_name (rhs_col c) \<in> set ?ts \<and> tab_name (lhs_col c) \<noteq> tab_name (rhs_col c)"
        by simp
      let ?l = "tab_name (lhs_col c)" and ?r = "tab_name (rhs_col c)"
      let ?j0 = "replicate (length ?ts) ([] :: string)"
      from covered_pop[OF sc tabs dist covered_initial c(1), of db ?j0]
      obtain tag1 fed1 ic1 s1 where
        p1: "pop_scan db (replicate (length ?ts) (- 1)) (lhs_col c) ?j0 scans
               = Inr (ScanPlan tag1 ?l fed1 ic1, s1, ?j0 @ [?l])"
        and cv1: "\<forall>L'. set L' = insert (?l, fed1) (set []) \<and> distinct (map fst L')
              \<longrightarrow> covered ?ts scans L' s1"
        by auto
      have cov1: "covered ?ts scans [(?l, fed1)] s1" using cv1 by simp
      from c(3) have "?r \<notin> fst ` set [(?l, fed1)]" by simp
      from covered_pop[OF sc tabs dist cov1 c(2) this, of db "?j0 @ [?l]"]
      obtain tag2 fed2 ic2 s2 where
        p2: "pop_scan db s1 (rhs_col c) (?j0 @ [?l]) scans
               = Inr (ScanPlan tag2 ?r fed2 ic2, s2, (?j0 @ [?l]) @ [?r])"
        and cv2: "\<forall>L'. set L' = insert (?r, fed2) (set [(?l, fed1)]) \<and> distinct (map fst L')
              \<longrightarrow> covered ?ts scans L' s2"
        by blast
      let ?t0 = "JoinPlan T_NestLoop (ScanPlan tag1 ?l fed1 ic1) (ScanPlan tag2 ?r fed2 ic2) [c]"
      have "set (leaf_scans ?t0) = insert (?r, fed2) (set [(?l, fed1)])
            \<and> distinct (map fst (leaf_scans ?t0))"
        using c(3) by auto
      with cv2 have cov2: "covered ?ts scans (leaf_scans ?t0) s2" by blast
      have jt0: "join_tree ?t0" by simp
      from nonempty(2) have "set ?j0 = {[]}" by (cases ?ts) auto
      then have jn0: "set ((?j0 @ [?l]) @ [?r]) = insert [] (fst ` set (leaf_scans ?t0))"
        by auto
      from join_conds_covered[OF sc tabs dist nonempty(1) jt0 cov2 jn0 cs, of db]
      obtain t1 s3 j3 where
        jc: "join_conds db scans cs (?t0, s2, (?j0 @ [?l]) @ [?r]) = Inr (t1, s3, j3)"
        and jt1: "join_tree t1" and cov3: "covered ?ts scans (leaf_scans t1) s3"
        and m: "image_mset mirror (mset (join_node_conds t1))
          = image_mset mirror (mset (join_node_conds ?t0)) + image_mset mirror (mset cs)"
        by blast
      have res: "fst (make_one_rel db True sm q) = Inr (join_rest s3 scans t1)"
        using make_one_rel_join_conds(2)[OF multi r[unfolded rest Cons], of True sm] p1 p2 jc
        by (simp add: first_join_def)
      from join_rest_all_scans[OF sc tabs dist jt1 cov3] res m Cons show ?thesis by simp
    qed
  qed
  then obtain p where p: "fst (make_one_rel db True sm q) = Inr p"
    and ls: "mset (leaf_scans p) = mset (map scan_pair scans)"
    and jm: "image_mset mirror (mset (join_node_conds p)) = image_mset mirror (mset ?J)"
    by blast
  from scan_conds_mset[OF ls] fed have s: "mset (scan_conds p) + mset ?J = mset ?C" by simp
  have "image_mset mirror (mset (scan_conds p) + mset (join_node_conds p))
      = image_mset mirror (mset (scan_conds p)) + image_mset mirror (mset ?J)"
    using jm by simp
  also have "\<dots> = image_mset mirror (mset (scan_conds p) + mset ?J)" by simp
  also have "\<dots> = image_mset mirror (mset ?C)" by (simp only: s)
  finally show ?thesis using p s jm by blast
qed

text \<open>An instance: the three-table query over the catalog without indexes.\<close>

theorem predicate_conservation_witness:
  "\<exists>p. fst (make_one_rel db_none True True q_rsu) = Inr p
      \<and> mset (scan_conds p) + mset (join_conditions (tables q_rsu) (conds q_rsu))
          = mset (conds q_rsu)
      \<and> image_mset mirror (mset (join_node_conds p))
          = image_mset mirror (mset (join_conditions (tables q_rsu) (conds q_rsu)))
      \<and> image_mset mirror (mset (scan_conds p) + mset (join_node_conds p))
          = image_mset mirror (mset (conds q_rsu))"
  using predicate_conservation [of q_rsu db_none True]
  by (simp add: q_rsu_def col_cond_def)

text \<open>
  C4 as stated fails: the plan of the three-table query carries \<^verbatim>\<open>u.y = s.y\<close> where the query
  has \<^verbatim>\<open>s.y = u.y\<close>, so the conditions of the plan are not the multiset of the conjuncts.
\<close>

theorem predicate_conservation_counterexample:
  "fst (make_one_rel db_none True True q_rsu) = Inr plan_u_rs
   \<and> mset (scan_conds plan_u_rs) + mset (join_node_conds plan_u_rs) \<noteq> mset (conds q_rsu)"
  by (simp add: q_rsu_def plan_u_rs_def scan_conds_def make_one_rel_def pop_conds_def
        pop_test_def get_index_cols_def db_none_def col_cond_def pop_scan_def first_join_def
        join_next_def swap_cond_def)

text \<open>
  With only the sort-merge knob true a condition can vanish: \<^verbatim>\<open>push_conds\<close> does not look below
  the sort nodes, returns 0, and the condition is erased.  The plan of
  \<^verbatim>\<open>r.x = s.x AND r.z = s.z\<close> carries \<^verbatim>\<open>r.x = s.x\<close> alone.
\<close>

lemma sort_merge_drops_condition:
  "fst (make_one_rel db_none False True q_rs_two)
     = Inr (JoinPlan T_SortMerge
              (SortPlan T_Sort (ScanPlan T_SeqScan ''r'' [] [])
                 [\<lparr>tab_name = ''r'', col_name = ''x''\<rparr>] False)
              (SortPlan T_Sort (ScanPlan T_SeqScan ''s'' [] [])
                 [\<lparr>tab_name = ''s'', col_name = ''x''\<rparr>] False)
              [col_cond ''r'' ''x'' OP_EQ ''s'' ''x''])"
  by (simp add: q_rs_two_def make_one_rel_def pop_conds_def pop_test_def get_index_cols_def
        db_none_def col_cond_def pop_scan_def first_join_def sorted_input_def join_next_def)

end
